theory Spec2Isabelle
  imports Complex_Main "HOL-Library.Word" "HOL-Library.Signed_Division"
begin

unbundle bit_operations_syntax

section \<open>Identifier layout (internal/trace/span.go, constants)\<close>

type_synonym byte = "8 word"

definition traceIDSize :: nat where "traceIDSize = 16"
definition spanIDSize :: nat where "spanIDSize = 8"
definition totalIDSize :: nat where "totalIDSize = traceIDSize + spanIDSize * 2"

definition flagBitsTotal :: nat where "flagBitsTotal = 8"
definition flagBitsTypeMarker :: nat where "flagBitsTypeMarker = 3"
definition flagBitsNonTypeMarker :: nat where
  "flagBitsNonTypeMarker = flagBitsTotal - flagBitsTypeMarker"

definition traceFlagOldDebug :: byte where "traceFlagOldDebug = 1"
definition traceFlagSampled :: byte where "traceFlagSampled = push_bit 1 1"
definition traceFlagCritical :: byte where "traceFlagCritical = push_bit 2 1"
definition typeMarkerForOldFormat :: byte where "typeMarkerForOldFormat = push_bit 5 0"
definition typeMarkerForDebug :: byte where "typeMarkerForDebug = push_bit 5 2"
definition typeMarkerForStressTest :: byte where "typeMarkerForStressTest = push_bit 5 3"
definition typeMarkerForShadow :: byte where "typeMarkerForShadow = push_bit 5 4"
definition typeMarkerMask :: byte where "typeMarkerMask = push_bit 5 7"

lemmas size_defs = traceIDSize_def spanIDSize_def totalIDSize_def

lemmas flag_defs =
  flagBitsTotal_def flagBitsTypeMarker_def flagBitsNonTypeMarker_def
  traceFlagOldDebug_def traceFlagSampled_def traceFlagCritical_def
  typeMarkerForOldFormat_def typeMarkerForDebug_def typeMarkerForStressTest_def
  typeMarkerForShadow_def typeMarkerMask_def

section \<open>The spanContext struct and its accessors\<close>

text \<open>
  The struct \<^verbatim>\<open>spanContext\<close>: the child sequence counter (a \<^verbatim>\<open>uint16\<close>) and the
  identifier array \<^verbatim>\<open>id [totalIDSize]byte\<close>. The mutex only serialises
  \<^verbatim>\<open>NewChildSpanContext\<close>, which is one atomic step of the model. The array is a byte
  list; Go's array type fixes its length, which the predicate \<open>wf_spanContext\<close> records.
\<close>

record spanContext =
  childSequenceID :: "16 word"
  id_sc :: "byte list"

definition wf_spanContext :: "spanContext \<Rightarrow> bool" where
  "wf_spanContext sc = (length (id_sc sc) = totalIDSize)"

definition TraceID :: "spanContext \<Rightarrow> byte list" where
  "TraceID sc = take traceIDSize (id_sc sc)"

definition SpanID :: "spanContext \<Rightarrow> byte list" where
  "SpanID sc = take spanIDSize (drop traceIDSize (id_sc sc))"

definition ParentID :: "spanContext \<Rightarrow> byte list" where
  "ParentID sc = drop (traceIDSize + spanIDSize) (id_sc sc)"

definition Bytes :: "spanContext \<Rightarrow> byte list" where
  "Bytes sc = id_sc sc"

definition level :: "spanContext \<Rightarrow> byte" where
  "level sc = id_sc sc ! traceIDSize"

section \<open>Flag decoder (internal/trace/flag.go)\<close>

text \<open>
  The interface value \<^verbatim>\<open>SpanContext\<close> may be nil: it is a \<open>spanContext option\<close>.
  \<^verbatim>\<open>getSpecialFlag\<close> and \<^verbatim>\<open>isOldFormat\<close> are only called after the nil check.
\<close>

definition getSpecialFlag :: "spanContext \<Rightarrow> byte" where
  "getSpecialFlag sc = TraceID sc ! (traceIDSize - 1)"

definition isOldFormat :: "spanContext \<Rightarrow> bool" where
  "isOldFormat sc = ((getSpecialFlag sc AND typeMarkerMask) = typeMarkerForOldFormat)"

definition GetTypeMarker :: "spanContext option \<Rightarrow> int" where
  "GetTypeMarker x =
     (case x of
        None \<Rightarrow> 0
      | Some sc \<Rightarrow> uint (drop_bit flagBitsNonTypeMarker (getSpecialFlag sc AND typeMarkerMask)))"

definition IsSpanContextDebug :: "spanContext option \<Rightarrow> bool" where
  "IsSpanContextDebug x =
     (case x of
        None \<Rightarrow> False
      | Some sc \<Rightarrow>
          if isOldFormat sc
          then (getSpecialFlag sc AND traceFlagOldDebug) = traceFlagOldDebug
          else (getSpecialFlag sc AND typeMarkerMask) = typeMarkerForDebug)"

definition IsSpanContextFromStressTest :: "spanContext option \<Rightarrow> bool" where
  "IsSpanContextFromStressTest x =
     (case x of
        None \<Rightarrow> False
      | Some sc \<Rightarrow> (getSpecialFlag sc AND typeMarkerMask) = typeMarkerForStressTest)"

definition IsSpanContextShadow :: "spanContext option \<Rightarrow> bool" where
  "IsSpanContextShadow x =
     (case x of
        None \<Rightarrow> False
      | Some sc \<Rightarrow> (getSpecialFlag sc AND typeMarkerMask) = typeMarkerForShadow)"

definition IsSpanContextSampled :: "spanContext option \<Rightarrow> bool" where
  "IsSpanContextSampled x =
     (case x of
        None \<Rightarrow> False
      | Some sc \<Rightarrow>
          (getSpecialFlag sc AND traceFlagSampled) = traceFlagSampled
          \<or> IsSpanContextDebug (Some sc))"

definition IsSpanContextCritical :: "spanContext option \<Rightarrow> bool" where
  "IsSpanContextCritical x =
     (case x of
        None \<Rightarrow> False
      | Some sc \<Rightarrow> (getSpecialFlag sc AND traceFlagCritical) = traceFlagCritical)"

section \<open>Deprecated flag methods of spanContext (internal/trace/span.go)\<close>

definition spanContext_IsDebug :: "spanContext \<Rightarrow> bool" where
  "spanContext_IsDebug sc =
     (if isOldFormat sc
      then (if (id_sc sc ! (traceIDSize - 1) AND traceFlagOldDebug) = traceFlagOldDebug
            then True
            else (id_sc sc ! (traceIDSize - 1) AND typeMarkerMask) = typeMarkerForDebug)
      else (id_sc sc ! (traceIDSize - 1) AND typeMarkerMask) = typeMarkerForDebug)"

definition spanContext_IsFromStressTest :: "spanContext \<Rightarrow> bool" where
  "spanContext_IsFromStressTest sc =
     ((id_sc sc ! (traceIDSize - 1) AND typeMarkerMask) = typeMarkerForStressTest)"

definition spanContext_IsSampled :: "spanContext \<Rightarrow> bool" where
  "spanContext_IsSampled sc =
     ((id_sc sc ! (traceIDSize - 1) AND traceFlagSampled) = traceFlagSampled
      \<or> spanContext_IsDebug sc)"

definition spanContext_GetTypeMarker :: "spanContext \<Rightarrow> int" where
  "spanContext_GetTypeMarker sc =
     uint (drop_bit flagBitsNonTypeMarker (id_sc sc ! (traceIDSize - 1) AND typeMarkerMask))"

section \<open>Hexadecimal text form (Go's encoding/hex, as used by span.go)\<close>

text \<open>
  Run-time failures of the Go code are values of \<open>error\<close>: the package's own
  \<^verbatim>\<open>errConvertToSpanContext\<close>, the two errors of \<^verbatim>\<open>hex.Decode\<close>, and the two run-time
  panics a slice or index expression can raise.
\<close>

datatype error =
    ErrConvertToSpanContext
  | InvalidByteError char
  | ErrLength
  | PanicIndexOutOfRange
  | PanicSliceBounds

definition hextable :: string where
  "hextable = ''0123456789abcdef''"

text \<open>
  \<^verbatim>\<open>hex.Encode(dst, src)\<close> writes two digits per source byte into \<open>dst\<close>. The
  destination is a view \<^verbatim>\<open>rBytes[j:]\<close> of the caller's array, so the model takes the whole
  array and the offset \<open>j\<close> of the view.
\<close>

fun hex_Encode :: "string \<Rightarrow> nat \<Rightarrow> byte list \<Rightarrow> string" where
  "hex_Encode dst j [] = dst"
| "hex_Encode dst j (v # src) =
     hex_Encode (dst[j := hextable ! unat (drop_bit 4 v),
                     j + 1 := hextable ! unat (v AND 0x0f)]) (j + 2) src"

definition hex_EncodedLen :: "nat \<Rightarrow> nat" where
  "hex_EncodedLen n = n * 2"

definition String :: "spanContext \<Rightarrow> string" where
  "String sc =
     (let rBytes0 = replicate (totalIDSize * 2 + 2) (char_of (0::nat));
          rBytes1 = hex_Encode rBytes0 0 (TraceID sc);
          rBytes2 = rBytes1[hex_EncodedLen traceIDSize := CHR '':''];
          rBytes3 = hex_Encode rBytes2 (hex_EncodedLen traceIDSize + 1) (SpanID sc);
          rBytes4 = rBytes3[hex_EncodedLen (traceIDSize + spanIDSize) + 1 := CHR '':''];
          rBytes5 = hex_Encode rBytes4 (hex_EncodedLen (traceIDSize + spanIDSize) + 2)
                      (ParentID sc)
      in rBytes5)"

definition fromHexChar :: "char \<Rightarrow> byte option" where
  "fromHexChar c =
     (let n = (of_char c :: nat) in
      if of_char CHR ''0'' \<le> n \<and> n \<le> of_char CHR ''9''
        then Some (of_nat (n - of_char CHR ''0''))
      else if of_char CHR ''a'' \<le> n \<and> n \<le> of_char CHR ''f''
        then Some (of_nat (n - of_char CHR ''a'' + 10))
      else if of_char CHR ''A'' \<le> n \<and> n \<le> of_char CHR ''F''
        then Some (of_nat (n - of_char CHR ''A'' + 10))
      else None)"

text \<open>
  \<^verbatim>\<open>hex.Decode(dst, src)\<close>: each pair of digits is checked, then stored with
  \<^verbatim>\<open>dst[i] = (a << 4) | b\<close>; the store is an ordinary index expression, so it panics once
  \<open>i\<close> passes the end of \<open>dst\<close>. An odd trailing character gives \<^verbatim>\<open>InvalidByteError\<close> if it
  is no digit and \<^verbatim>\<open>ErrLength\<close> otherwise. Every destination in span.go is a view
  \<^verbatim>\<open>hBytes[i:]\<close> that runs to the end of the array: the model takes the array and the offset.
\<close>

fun hex_Decode :: "byte list \<Rightarrow> nat \<Rightarrow> string \<Rightarrow> error + byte list" where
  "hex_Decode dst i (p # q # src) =
     (case fromHexChar p of
        None \<Rightarrow> Inl (InvalidByteError p)
      | Some a \<Rightarrow>
          (case fromHexChar q of
             None \<Rightarrow> Inl (InvalidByteError q)
           | Some b \<Rightarrow>
               if i < length dst
               then hex_Decode (dst[i := push_bit 4 a OR b]) (i + 1) src
               else Inl PanicIndexOutOfRange))"
| "hex_Decode dst i [p] =
     (case fromHexChar p of
        None \<Rightarrow> Inl (InvalidByteError p)
      | Some a \<Rightarrow> Inl ErrLength)"
| "hex_Decode dst i [] = Inr dst"

text \<open>The text that \<^verbatim>\<open>hex.Encode\<close> produces for a byte and for a byte sequence.\<close>

definition hex_digits :: "byte \<Rightarrow> string" where
  "hex_digits v = [hextable ! unat (drop_bit 4 v), hextable ! unat (v AND 0x0f)]"

definition hex_string :: "byte list \<Rightarrow> string" where
  "hex_string bs = concat (map hex_digits bs)"

section \<open>Parsing (NewSpanContextFromBytes, NewSpanContextFromString)\<close>

text \<open>\<^verbatim>\<open>copy(dst[off:], src)\<close> on an array \<open>dst\<close>: as many bytes as fit are copied.\<close>

definition go_copy :: "'a list \<Rightarrow> nat \<Rightarrow> 'a list \<Rightarrow> 'a list" where
  "go_copy dst off src =
     take off dst @ take (length dst - off) src @ drop (off + length src) dst"

definition NewSpanContextFromBytes :: "byte list \<Rightarrow> error + spanContext" where
  "NewSpanContextFromBytes data =
     (if length data \<noteq> totalIDSize then Inl ErrConvertToSpanContext
      else Inr \<lparr>childSequenceID = 0,
                id_sc = go_copy (replicate totalIDSize 0) 0 data\<rparr>)"

text \<open>\<^verbatim>\<open>strings.Index\<close> and \<^verbatim>\<open>strings.LastIndex\<close> for a one-byte separator; -1 if absent.\<close>

definition strings_Index :: "string \<Rightarrow> char \<Rightarrow> int" where
  "strings_Index s c =
     (if c \<in> set s then int (length (takeWhile (\<lambda>x. x \<noteq> c) s)) else - 1)"

definition strings_LastIndex :: "string \<Rightarrow> char \<Rightarrow> int" where
  "strings_LastIndex s c =
     (if c \<in> set s
      then int (length s) - 1 - int (length (takeWhile (\<lambda>x. x \<noteq> c) (rev s)))
      else - 1)"

text \<open>The slice expression \<^verbatim>\<open>s[lo:hi]\<close>, which panics on bounds out of order or range.\<close>

definition substr :: "string \<Rightarrow> int \<Rightarrow> int \<Rightarrow> error + string" where
  "substr s lo hi =
     (if 0 \<le> lo \<and> lo \<le> hi \<and> hi \<le> int (length s)
      then Inr (take (nat (hi - lo)) (drop (nat lo) s))
      else Inl PanicSliceBounds)"

definition decode_segment ::
  "byte list \<Rightarrow> nat \<Rightarrow> error + string \<Rightarrow> error + byte list" where
  "decode_segment hBytes off seg =
     (case seg of Inl e \<Rightarrow> Inl e | Inr src \<Rightarrow> hex_Decode hBytes off src)"

definition NewSpanContextFromString :: "string \<Rightarrow> error + spanContext" where
  "NewSpanContextFromString data =
     (if length data = 0 then Inl ErrConvertToSpanContext
      else
        let firstColonIdx = strings_Index data CHR '':'';
            lastColonIdx = strings_LastIndex data CHR '':''
        in
          if firstColonIdx \<ge> lastColonIdx then Inl ErrConvertToSpanContext
          else
            (case decode_segment (replicate totalIDSize 0) 0
                    (substr data 0 firstColonIdx) of
               Inl err \<Rightarrow> Inl err
             | Inr hBytes1 \<Rightarrow>
                 (case decode_segment hBytes1 traceIDSize
                         (substr data (firstColonIdx + 1) lastColonIdx) of
                    Inl err \<Rightarrow> Inl err
                  | Inr hBytes2 \<Rightarrow>
                      (case decode_segment hBytes2 (traceIDSize + spanIDSize)
                              (substr data (lastColonIdx + 1) (int (length data))) of
                         Inl err \<Rightarrow> Inl err
                       | Inr hBytes3 \<Rightarrow>
                           Inr \<lparr>childSequenceID = 0, id_sc = hBytes3\<rparr>))))"

section \<open>Randomness, clock and floating-point values\<close>

text \<open>
  A \<^verbatim>\<open>float64\<close> is a NaN, an infinity or a finite number. The sampler only compares such
  values and takes minima and maxima, all of which are exact, so finite values are
  reals (the two zeros compare equal and are one value here).
\<close>

datatype float64 = NaN | NegInf | Fin real | PosInf

fun f64_less :: "float64 \<Rightarrow> float64 \<Rightarrow> bool" where
  "f64_less NaN y = False"
| "f64_less x NaN = False"
| "f64_less PosInf y = False"
| "f64_less x NegInf = False"
| "f64_less NegInf y = True"
| "f64_less x PosInf = True"
| "f64_less (Fin a) (Fin b) = (a < b)"

text \<open>
  \<^verbatim>\<open>math.Min\<close> and \<^verbatim>\<open>math.Max\<close> with their special cases, in the order of the Go library:
  the infinity that decides the result first, then NaN, then the comparison.
\<close>

definition math_Min :: "float64 \<Rightarrow> float64 \<Rightarrow> float64" where
  "math_Min x y =
     (if x = NegInf \<or> y = NegInf then NegInf
      else if x = NaN \<or> y = NaN then NaN
      else if f64_less x y then x else y)"

definition math_Max :: "float64 \<Rightarrow> float64 \<Rightarrow> float64" where
  "math_Max x y =
     (if x = PosInf \<or> y = PosInf then PosInf
      else if x = NaN \<or> y = NaN then NaN
      else if f64_less y x then x else y)"

text \<open>Go's \<^verbatim>\<open><=\<close> on \<^verbatim>\<open>float64\<close> (false when either side is NaN), and the interval [0, 1].\<close>

definition f64_le :: "float64 \<Rightarrow> float64 \<Rightarrow> bool" where
  "f64_le x y = (x \<noteq> NaN \<and> y \<noteq> NaN \<and> \<not> f64_less y x)"

definition in_unit_interval :: "float64 \<Rightarrow> bool" where
  "in_unit_interval r = (f64_le (Fin 0) r \<and> f64_le r (Fin 1))"

text \<open>
  The package-level generator of \<^verbatim>\<open>math/rand\<close> is an oracle: the stream of bytes that
  \<^verbatim>\<open>rand.Read\<close> will deliver and the stream of values that \<^verbatim>\<open>rand.Float64\<close> will deliver.
  \<^verbatim>\<open>rand.Read\<close> always fills the whole slice and returns its length.
\<close>

record rng =
  byte_src :: "nat \<Rightarrow> byte"
  float_src :: "nat \<Rightarrow> float64"

definition rand_Read :: "nat \<Rightarrow> rng \<Rightarrow> byte list \<times> rng" where
  "rand_Read n g = (map (byte_src g) [0..<n], g\<lparr>byte_src := (\<lambda>i. byte_src g (i + n))\<rparr>)"

definition rand_Float64 :: "rng \<Rightarrow> float64 \<times> rng" where
  "rand_Float64 g = (float_src g 0, g\<lparr>float_src := (\<lambda>i. float_src g (i + 1))\<rparr>)"

section \<open>Span identifiers (getRandomBytes, newSpanID, NewChildSpanContext)\<close>

text \<open>
  The loop of \<^verbatim>\<open>getRandomBytes\<close>:
  \<^verbatim>\<open>for i := 0; i < bsLen-1 && bs[i] != 0; i++ { isAllZero = false }\<close>.
\<close>

function getRandomBytes_loop :: "byte list \<Rightarrow> nat \<Rightarrow> nat \<Rightarrow> bool \<Rightarrow> bool" where
  "getRandomBytes_loop bs bsLen i isAllZero =
     (if i < bsLen - 1 \<and> bs ! i \<noteq> 0
      then getRandomBytes_loop bs bsLen (i + 1) False
      else isAllZero)"
  by pat_completeness auto
termination
  by (relation "measure (\<lambda>(bs, bsLen, i, isAllZero). bsLen - i)") auto

declare getRandomBytes_loop.simps [simp del]

text \<open>
  A function that fills a slice in place takes the slice's contents and returns the new
  contents; the caller stores them back into its array with \<open>go_copy\<close>.
\<close>

definition getRandomBytes :: "byte list \<Rightarrow> rng \<Rightarrow> byte list \<times> rng" where
  "getRandomBytes bs g =
     (if length bs = 0 then (bs, g)
      else
        let (bs1, g1) = rand_Read (length bs) g;
            bsLen = length bs
        in
          if bs1 ! (bsLen - 1) = 0
          then (if getRandomBytes_loop bs1 bsLen 0 True
                then (bs1[bsLen - 1 := 1], g1)
                else (bs1, g1))
          else (bs1, g1))"

definition newSpanID :: "byte list \<Rightarrow> byte \<Rightarrow> 16 word \<Rightarrow> rng \<Rightarrow> byte list \<times> rng" where
  "newSpanID spanID lvl sequenceID g =
     (let s1 = spanID[0 := lvl];
          s2 = (if sequenceID > 0
                then s1[1 := ucast (drop_bit 8 sequenceID), 2 := ucast sequenceID]
                else s1);
          (tail, g1) = getRandomBytes (take (spanIDSize - 3) (drop 3 s2)) g
      in (go_copy s2 3 tail, g1))"

text \<open>
  \<^verbatim>\<open>NewChildSpanContext\<close> returns the child, the parent with its counter advanced, and the
  generator state. The locked section is the read and the increment of the counter.
\<close>

definition NewChildSpanContext ::
  "spanContext \<Rightarrow> rng \<Rightarrow> spanContext \<times> spanContext \<times> rng" where
  "NewChildSpanContext sc g =
     (let currentSequenceID = childSequenceID sc;
          sc1 = sc\<lparr>childSequenceID := childSequenceID sc + 1\<rparr>;
          childID0 = replicate totalIDSize 0;
          childID1 = go_copy childID0 0 (TraceID sc);
          (spanID, g1) = newSpanID (take spanIDSize (drop traceIDSize childID1))
                           (level sc + 1) currentSequenceID g;
          childID2 = go_copy childID1 traceIDSize spanID;
          childID3 = go_copy childID2 (traceIDSize + spanIDSize) (SpanID sc)
      in (\<lparr>childSequenceID = 0, id_sc = childID3\<rparr>, sc1, g1))"

section \<open>Sampler (ProbabilisticSampler)\<close>

record ProbabilisticSampler =
  samplingRate :: float64

definition ProbabilisticSampler_IsSampled :: "ProbabilisticSampler \<Rightarrow> rng \<Rightarrow> bool \<times> rng" where
  "ProbabilisticSampler_IsSampled s g =
     (let (draw, g1) = rand_Float64 g in (f64_less draw (samplingRate s), g1))"

definition NewProbabilisticSampler :: "float64 \<Rightarrow> ProbabilisticSampler" where
  "NewProbabilisticSampler rate =
     \<lparr>samplingRate = math_Max (Fin 0) (math_Min rate (Fin 1))\<rparr>"

section \<open>Generator of root contexts (internal/trace/span_generator.go)\<close>

text \<open>
  The \<^verbatim>\<open>Sampler\<close> interface is any decision procedure that may consume randomness.
  Options are functions on the option struct, applied in order. \<^verbatim>\<open>IsSampled *bool\<close> is
  an optional boolean.
\<close>

type_synonym Sampler = "rng \<Rightarrow> bool \<times> rng"

record cachedSpanContextGenerator =
  serviceInstanceID :: string
  instanceIDHash :: "byte list"
  sampler :: Sampler

record SpanContextOptions =
  IsDebug :: bool
  IsFromStressTest :: bool
  IsShadow :: bool
  IsSampled :: "bool option"
  IsCritical :: bool

type_synonym SpanContextOption = "SpanContextOptions \<Rightarrow> SpanContextOptions"

definition IsDebug_option :: "bool \<Rightarrow> SpanContextOption" where
  "IsDebug_option isDebug = (\<lambda>options. options\<lparr>IsDebug := isDebug\<rparr>)"

definition IsFromStressTest_option :: "bool \<Rightarrow> SpanContextOption" where
  "IsFromStressTest_option isFromStressTest =
     (\<lambda>options. options\<lparr>IsFromStressTest := isFromStressTest\<rparr>)"

definition IsShadow_option :: "bool \<Rightarrow> SpanContextOption" where
  "IsShadow_option isShadow = (\<lambda>options. options\<lparr>IsShadow := isShadow\<rparr>)"

definition IsSampled_option :: "bool option \<Rightarrow> SpanContextOption" where
  "IsSampled_option isSampled = (\<lambda>options. options\<lparr>IsSampled := isSampled\<rparr>)"

definition IsCritical_option :: "bool \<Rightarrow> SpanContextOption" where
  "IsCritical_option isCritical = (\<lambda>options. options\<lparr>IsCritical := isCritical\<rparr>)"

definition setTypeMarker :: "SpanContextOptions \<Rightarrow> byte \<Rightarrow> byte" where
  "setTypeMarker sco traceFlag =
     (if IsDebug sco then traceFlag OR traceFlagOldDebug
      else if IsFromStressTest sco
        then (traceFlag AND NOT typeMarkerMask) OR typeMarkerForStressTest
      else if IsShadow sco
        then (traceFlag AND NOT typeMarkerMask) OR typeMarkerForShadow
      else traceFlag)"

definition setSingleFlags ::
  "SpanContextOptions \<Rightarrow> byte \<Rightarrow> cachedSpanContextGenerator \<Rightarrow> rng \<Rightarrow> byte \<times> rng" where
  "setSingleFlags sco traceFlag scg g =
     (let (flag1, g1) =
            (case IsSampled sco of
               Some b \<Rightarrow> (if b then traceFlag OR traceFlagSampled else traceFlag, g)
             | None \<Rightarrow>
                 (let (sampled, g') = sampler scg g
                  in (if sampled then traceFlag OR traceFlagSampled else traceFlag, g')));
          flag2 = (if IsCritical sco then flag1 OR traceFlagCritical else flag1)
      in (flag2, g1))"

text \<open>
  \<^verbatim>\<open>newSpanContextID\<close> fills the identifier array. \<open>now\<close> is the reading of
  \<^verbatim>\<open>time.Now().UnixNano()\<close>, an \<^verbatim>\<open>int64\<close>; the division by 1000 truncates.
\<close>

definition newSpanContextID ::
  "cachedSpanContextGenerator \<Rightarrow> byte list \<Rightarrow> byte \<Rightarrow> 64 word \<Rightarrow> rng \<Rightarrow> byte list \<times> rng" where
  "newSpanContextID scg scID flag now g =
     (let scID1 = go_copy scID 0 (instanceIDHash scg);
          timestamp = sint now sdiv 1000;
          scID2 = scID1[4 := of_int (drop_bit 40 timestamp),
                        5 := of_int (drop_bit 32 timestamp),
                        6 := of_int (drop_bit 24 timestamp),
                        7 := of_int (drop_bit 16 timestamp),
                        8 := of_int (drop_bit 8 timestamp),
                        9 := of_int timestamp];
          (rnd, g1) = getRandomBytes (take (traceIDSize - 1 - 10) (drop 10 scID2)) g;
          scID3 = go_copy scID2 10 rnd;
          scID4 = scID3[traceIDSize - 1 := flag];
          (spanID, g2) = newSpanID (drop traceIDSize scID4) 0 0 g1
      in (go_copy scID4 traceIDSize spanID, g2))"

text \<open>
  The first statements of \<^verbatim>\<open>NewSpanContext\<close>: the option struct starts all false (no
  sampling override) and every option function is applied to it in order.
\<close>

definition collect_options :: "SpanContextOption list \<Rightarrow> SpanContextOptions" where
  "collect_options options =
     foldl (\<lambda>sco f. f sco)
       \<lparr>IsDebug = False, IsFromStressTest = False, IsShadow = False,
        IsSampled = None, IsCritical = False\<rparr> options"

definition NewSpanContext ::
  "cachedSpanContextGenerator \<Rightarrow> SpanContextOption list \<Rightarrow> 64 word \<Rightarrow> rng
     \<Rightarrow> spanContext \<times> rng" where
  "NewSpanContext scg options now g =
     (let sco = collect_options options;
          traceFlag0 = setTypeMarker sco 0;
          (traceFlag, g1) = setSingleFlags sco traceFlag0 scg g;
          (scID, g2) = newSpanContextID scg (replicate totalIDSize 0) traceFlag now g1
      in (\<lparr>childSequenceID = 0, id_sc = scID\<rparr>, g2))"

text \<open>The array type \<^verbatim>\<open>[4]byte\<close> of the cached fingerprint.\<close>

definition wf_generator :: "cachedSpanContextGenerator \<Rightarrow> bool" where
  "wf_generator scg = (length (instanceIDHash scg) = 4)"

text \<open>The two bytes \<^verbatim>\<open>byte(sequenceID>>8), byte(sequenceID)\<close> that \<^verbatim>\<open>newSpanID\<close> stores.\<close>

definition seq_bytes :: "16 word \<Rightarrow> byte list" where
  "seq_bytes s = [ucast (drop_bit 8 s), ucast s]"

section \<open>Test fixtures\<close>

definition rng_zero :: rng where
  "rng_zero = \<lparr>byte_src = (\<lambda>i. 0), float_src = (\<lambda>i. Fin 0)\<rparr>"

definition rng_count :: rng where
  "rng_count = \<lparr>byte_src = (\<lambda>i. of_nat (i + 1)), float_src = (\<lambda>i. Fin (1 / 2))\<rparr>"

definition gen_fixed :: "float64 \<Rightarrow> cachedSpanContextGenerator" where
  "gen_fixed rate =
     \<lparr>serviceInstanceID = ''svc'', instanceIDHash = [0xde, 0xad, 0xbe, 0xef],
      sampler = ProbabilisticSampler_IsSampled (NewProbabilisticSampler rate)\<rparr>"

definition ctx_flag :: "byte \<Rightarrow> spanContext" where
  "ctx_flag f = \<lparr>childSequenceID = 0, id_sc = replicate 15 0 @ [f] @ replicate 16 0\<rparr>"

definition opts_debug_stress :: "SpanContextOption list" where
  "opts_debug_stress = [IsDebug_option True, IsFromStressTest_option True]"

definition ctx_count :: spanContext where
  "ctx_count = \<lparr>childSequenceID = 0, id_sc = map of_nat [0..<32]\<rparr>"

text \<open>\<open>spawn n\<close>: \<open>n\<close> successive calls of \<^verbatim>\<open>NewChildSpanContext\<close> on one instance.\<close>

fun spawn :: "nat \<Rightarrow> spanContext \<Rightarrow> rng \<Rightarrow> spanContext list \<times> spanContext \<times> rng" where
  "spawn 0 sc g = ([], sc, g)"
| "spawn (Suc n) sc g =
     (let (child, sc1, g1) = NewChildSpanContext sc g;
          (children, sc2, g2) = spawn n sc1 g1
      in (child # children, sc2, g2))"

text \<open>The sequence number of a context: bytes 1 and 2 of its SpanID, big-endian.\<close>

definition sequence_of :: "spanContext \<Rightarrow> nat" where
  "sequence_of sc = unat (SpanID sc ! 1) * 256 + unat (SpanID sc ! 2)"

section \<open>Flag byte: bit-level facts\<close>

lemma seven: "(7 :: byte) = mask 3" by (simp add: mask_eq_exp_minus_1)

lemma marker_drop: "drop_bit 5 ((f :: byte) AND typeMarkerMask) = drop_bit 5 f"
  unfolding typeMarkerMask_def seven
  by (rule bit_word_eqI) (auto simp: bit_simps dest: bit_imp_le_length)

lemma marker_low_bits: "take_bit 5 ((f :: byte) AND typeMarkerMask) = 0"
  by (simp add: typeMarkerMask_def take_bit_and take_bit_push_bit)

lemma marker_push: "(f :: byte) AND typeMarkerMask = push_bit 5 (drop_bit 5 f)"
proof -
  have "push_bit 5 (drop_bit 5 (f AND typeMarkerMask)) + take_bit 5 (f AND typeMarkerMask)
          = f AND typeMarkerMask"
    by (rule bits_ident)
  then show ?thesis
    unfolding marker_low_bits marker_drop by simp
qed

lemma marker_eq_iff:
  assumes "drop_bit 5 (push_bit 5 k) = (k :: byte)"
  shows "((f :: byte) AND typeMarkerMask = push_bit 5 k) = (drop_bit 5 f = k)"
proof
  assume "f AND typeMarkerMask = push_bit 5 k"
  then have "drop_bit 5 (f AND typeMarkerMask) = drop_bit 5 (push_bit 5 k)" by simp
  then show "drop_bit 5 f = k" unfolding marker_drop assms .
next
  assume "drop_bit 5 f = k"
  then show "f AND typeMarkerMask = push_bit 5 k"
    by (simp add: marker_push)
qed

lemma marker_is_old: "((f :: byte) AND typeMarkerMask = typeMarkerForOldFormat) = (drop_bit 5 f = 0)"
  unfolding typeMarkerForOldFormat_def by (rule marker_eq_iff) simp

lemma marker_is_debug: "((f :: byte) AND typeMarkerMask = typeMarkerForDebug) = (drop_bit 5 f = 2)"
  unfolding typeMarkerForDebug_def by (rule marker_eq_iff) simp

lemma marker_is_stress: "((f :: byte) AND typeMarkerMask = typeMarkerForStressTest) = (drop_bit 5 f = 3)"
  unfolding typeMarkerForStressTest_def by (rule marker_eq_iff) simp

lemma marker_is_shadow: "((f :: byte) AND typeMarkerMask = typeMarkerForShadow) = (drop_bit 5 f = 4)"
  unfolding typeMarkerForShadow_def by (rule marker_eq_iff) simp

lemma and_single_bit:
  assumes "n < 8"
  shows "((f :: byte) AND push_bit n 1 = push_bit n 1) = bit f n"
proof
  assume "f AND push_bit n 1 = push_bit n 1"
  then have "bit (f AND push_bit n 1) n = bit (push_bit n (1::byte)) n" by simp
  with assms show "bit f n" by (simp add: bit_simps)
next
  assume "bit f n"
  then show "f AND push_bit n 1 = push_bit n 1"
    by (intro bit_word_eqI) (auto simp: bit_simps)
qed

lemma old_debug_bit: "((f :: byte) AND traceFlagOldDebug = traceFlagOldDebug) = bit f 0"
  using and_single_bit [of 0 f] by (simp add: traceFlagOldDebug_def)

lemma sampled_bit: "((f :: byte) AND traceFlagSampled = traceFlagSampled) = bit f 1"
  using and_single_bit [of 1 f] by (simp add: traceFlagSampled_def)

lemma critical_bit: "((f :: byte) AND traceFlagCritical = traceFlagCritical) = bit f 2"
  using and_single_bit [of 2 f] by (simp add: traceFlagCritical_def)

lemma flagBitsNonTypeMarker_eq: "flagBitsNonTypeMarker = 5"
  by (simp add: flagBitsNonTypeMarker_def flagBitsTotal_def flagBitsTypeMarker_def)

lemma GetTypeMarker_Some: "GetTypeMarker (Some sc) = uint (drop_bit 5 (getSpecialFlag sc))"
  unfolding GetTypeMarker_def flagBitsNonTypeMarker_eq
  by (simp only: option.case marker_drop)

lemma uint_byte_eq_iff: "(uint (w :: byte) = uint (v :: byte)) = (w = v)"
  by (simp add: word_uint_eq_iff)

lemma GetTypeMarker_eq_0: "(GetTypeMarker (Some sc) = 0) = (drop_bit 5 (getSpecialFlag sc) = 0)"
  using uint_byte_eq_iff [of "drop_bit 5 (getSpecialFlag sc)" 0]
  by (simp add: GetTypeMarker_Some)

lemma GetTypeMarker_eq_2: "(GetTypeMarker (Some sc) = 2) = (drop_bit 5 (getSpecialFlag sc) = 2)"
  using uint_byte_eq_iff [of "drop_bit 5 (getSpecialFlag sc)" 2]
  by (simp add: GetTypeMarker_Some)

lemma IsSpanContextDebug_Some:
  "IsSpanContextDebug (Some sc) =
     (if drop_bit 5 (getSpecialFlag sc) = 0 then bit (getSpecialFlag sc) 0
      else drop_bit 5 (getSpecialFlag sc) = 2)"
  by (simp only: IsSpanContextDebug_def option.case isOldFormat_def marker_is_old
      marker_is_debug old_debug_bit)

lemma getSpecialFlag_id: "getSpecialFlag sc = id_sc sc ! (traceIDSize - 1)"
  by (simp add: getSpecialFlag_def TraceID_def traceIDSize_def)

lemma getSpecialFlag_ctx_flag: "getSpecialFlag (ctx_flag f) = f"
  by (simp add: ctx_flag_def getSpecialFlag_def TraceID_def traceIDSize_def nth_append)

section \<open>Building identifiers: structure of the results\<close>

lemma length_go_copy: "off \<le> length dst \<Longrightarrow> length (go_copy dst off src) = length dst"
  by (simp add: go_copy_def)

lemma go_copy_fit:
  "off + length src \<le> length dst \<Longrightarrow>
     go_copy dst off src = take off dst @ src @ drop (off + length src) dst"
  by (simp add: go_copy_def)

lemma length_rand_Read: "length (fst (rand_Read n g)) = n"
  by (simp add: rand_Read_def)

lemma length_getRandomBytes: "length (fst (getRandomBytes bs g)) = length bs"
  by (simp add: getRandomBytes_def rand_Read_def Let_def case_prod_beta)

lemma getRandomBytes_loop_False: "getRandomBytes_loop bs bsLen i False = False"
  by (induction bs bsLen i False rule: getRandomBytes_loop.induct)
     (subst getRandomBytes_loop.simps, simp)

lemma getRandomBytes_loop_0:
  "getRandomBytes_loop bs bsLen 0 True = (\<not> (0 < bsLen - 1 \<and> bs ! 0 \<noteq> 0))"
  by (subst getRandomBytes_loop.simps) (simp add: getRandomBytes_loop_False)

lemma getRandomBytes_fst:
  "fst (getRandomBytes bs g) =
     (if bs = [] then bs
      else if fst (rand_Read (length bs) g) ! (length bs - 1) = 0
              \<and> getRandomBytes_loop (fst (rand_Read (length bs) g)) (length bs) 0 True
           then (fst (rand_Read (length bs) g))[length bs - 1 := 1]
           else fst (rand_Read (length bs) g))"
  by (simp add: getRandomBytes_def Let_def case_prod_beta)

lemma getRandomBytes_snd:
  "snd (getRandomBytes bs g) = (if bs = [] then g else snd (rand_Read (length bs) g))"
  by (simp add: getRandomBytes_def Let_def case_prod_beta)

lemma getRandomBytes_nonzero:
  assumes "bs \<noteq> []"
  shows "\<exists>b \<in> set (fst (getRandomBytes bs g)). b \<noteq> 0"
proof -
  define r where "r = fst (rand_Read (length bs) g)"
  have len: "length r = length bs" by (simp add: r_def rand_Read_def)
  with assms have pos: "0 < length r" by simp
  show ?thesis
  proof (cases "r ! (length bs - 1) = 0")
    case False
    then have "fst (getRandomBytes bs g) = r"
      using assms by (simp add: getRandomBytes_fst r_def)
    moreover have "r ! (length bs - 1) \<in> set r" using pos len by simp
    ultimately show ?thesis using False by auto
  next
    case True
    show ?thesis
    proof (cases "getRandomBytes_loop r (length bs) 0 True")
      case True
      then have "fst (getRandomBytes bs g) = r[length bs - 1 := 1]"
        using assms \<open>r ! (length bs - 1) = 0\<close>
        by (simp add: getRandomBytes_fst r_def)
      moreover have "(1::byte) \<in> set (r[length bs - 1 := 1])"
        using pos len by (simp add: set_update_memI)
      ultimately show ?thesis by (intro bexI [of _ 1]) simp_all
    next
      case False
      then have eq: "fst (getRandomBytes bs g) = r"
        using assms \<open>r ! (length bs - 1) = 0\<close>
        by (simp add: getRandomBytes_fst r_def)
      from False have "r ! 0 \<noteq> 0" by (simp add: getRandomBytes_loop_0)
      moreover have "r ! 0 \<in> set r" using pos by simp
      ultimately show ?thesis using eq by auto
    qed
  qed
qed

lemma getRandomBytes_all_zero_forced:
  assumes "bs \<noteq> []" and "\<forall>b \<in> set (fst (rand_Read (length bs) g)). b = 0"
  shows "last (fst (getRandomBytes bs g)) = 1"
proof -
  define r where "r = fst (rand_Read (length bs) g)"
  have len: "length r = length bs" by (simp add: r_def rand_Read_def)
  with assms have pos: "0 < length r" by simp
  have z: "\<And>i. i < length r \<Longrightarrow> r ! i = 0" using assms(2) r_def by simp
  have l0: "r ! (length bs - 1) = 0" using z pos len by simp
  have "getRandomBytes_loop r (length bs) 0 True"
    using z pos by (simp add: getRandomBytes_loop_0)
  then have "fst (getRandomBytes bs g) = r[length bs - 1 := 1]"
    using assms(1) l0 by (simp add: getRandomBytes_fst r_def)
  moreover have "last (r[length bs - 1 := 1]) = 1"
  proof -
    have ne: "r[length bs - 1 := 1] \<noteq> []" using pos by simp
    have "last (r[length bs - 1 := 1]) = r[length bs - 1 := 1] ! (length r - 1)"
      using last_conv_nth [OF ne] by simp
    also have "\<dots> = 1" using pos len by simp
    finally show ?thesis .
  qed
  ultimately show ?thesis by simp
qed

lemma getRandomBytes_length_only:
  "length bs = length bs' \<Longrightarrow> fst (getRandomBytes bs g) = fst (getRandomBytes bs' g)"
  "length bs = length bs' \<Longrightarrow> snd (getRandomBytes bs g) = snd (getRandomBytes bs' g)"
  by (auto simp: getRandomBytes_fst getRandomBytes_snd)

lemma newSpanID_fst:
  assumes "8 \<le> length spanID"
  shows "fst (newSpanID spanID lvl s g) =
           lvl # (if s > 0 then seq_bytes s else [spanID ! 1, spanID ! 2])
           @ fst (getRandomBytes (replicate 5 0) g) @ drop 8 spanID"
proof -
  from assms obtain a b c rest where sp: "spanID = a # b # c # rest" and r: "5 \<le> length rest"
    by (cases spanID; cases "tl spanID"; cases "tl (tl spanID)") auto
  have len5: "length (take 5 rest) = length (replicate 5 (0::byte))" using r by simp
  have t: "length (fst (getRandomBytes (replicate 5 0) g)) = 5"
    by (simp add: length_getRandomBytes)
  show ?thesis
    using r t
    by (simp add: newSpanID_def sp Let_def case_prod_beta spanIDSize_def go_copy_def
        seq_bytes_def getRandomBytes_length_only(1) [OF len5])
qed

lemma newSpanID_snd:
  assumes "8 \<le> length spanID"
  shows "snd (newSpanID spanID lvl s g) = snd (getRandomBytes (replicate 5 0) g)"
proof -
  from assms obtain a b c rest where sp: "spanID = a # b # c # rest" and r: "5 \<le> length rest"
    by (cases spanID; cases "tl spanID"; cases "tl (tl spanID)") auto
  have len5: "length (take 5 rest) = length (replicate 5 (0::byte))" using r by simp
  show ?thesis
    by (simp add: newSpanID_def sp Let_def case_prod_beta spanIDSize_def
        getRandomBytes_length_only(2) [OF len5])
qed

lemma seq_bytes_0: "seq_bytes 0 = [0, 0]"
  by (simp add: seq_bytes_def)

lemma wf_lengths:
  assumes "wf_spanContext sc"
  shows "length (TraceID sc) = 16" "length (SpanID sc) = 8" "length (ParentID sc) = 8"
    "id_sc sc = TraceID sc @ SpanID sc @ ParentID sc"
proof -
  have l: "length (id_sc sc) = 32" using assms by (simp add: wf_spanContext_def size_defs)
  show "length (TraceID sc) = 16" "length (SpanID sc) = 8" "length (ParentID sc) = 8"
    using l by (simp_all add: TraceID_def SpanID_def ParentID_def size_defs)
  have "id_sc sc = take 16 (id_sc sc) @ drop 16 (id_sc sc)" by simp
  also have "drop 16 (id_sc sc) = take 8 (drop 16 (id_sc sc)) @ drop 8 (drop 16 (id_sc sc))"
    by (rule append_take_drop_id [symmetric])
  finally show "id_sc sc = TraceID sc @ SpanID sc @ ParentID sc"
    by (simp add: TraceID_def SpanID_def ParentID_def size_defs)
qed

lemma NewChildSpanContext_id:
  assumes "wf_spanContext sc"
  shows "id_sc (fst (NewChildSpanContext sc g)) =
           TraceID sc @ (level sc + 1) # seq_bytes (childSequenceID sc)
           @ fst (getRandomBytes (replicate 5 0) g) @ SpanID sc"
proof -
  note L = wf_lengths [OF assms]
  let ?c1 = "go_copy (replicate totalIDSize 0) 0 (TraceID sc)"
  have c1: "?c1 = TraceID sc @ replicate 16 0"
    using L(1) by (simp add: go_copy_def size_defs)
  have sl: "take spanIDSize (drop traceIDSize ?c1) = replicate 8 0"
    using L(1) unfolding c1 by (simp add: size_defs)
  let ?sp = "fst (newSpanID (replicate 8 0) (level sc + 1) (childSequenceID sc) g)"
  have sp: "?sp = (level sc + 1) # seq_bytes (childSequenceID sc)
                  @ fst (getRandomBytes (replicate 5 0) g)"
    by (subst newSpanID_fst) (auto simp: seq_bytes_0 word_gt_0)
  have lsp: "length ?sp = 8"
    by (simp add: sp seq_bytes_def length_getRandomBytes)
  let ?c2 = "go_copy ?c1 traceIDSize ?sp"
  have c2: "?c2 = TraceID sc @ ?sp @ replicate 8 0"
    using L(1) lsp unfolding c1 by (simp add: go_copy_def size_defs)
  have c3: "go_copy ?c2 (traceIDSize + spanIDSize) (SpanID sc) = TraceID sc @ ?sp @ SpanID sc"
    using L(1,2) lsp unfolding c2 by (simp add: go_copy_def size_defs)
  have "id_sc (fst (NewChildSpanContext sc g)) =
          go_copy ?c2 (traceIDSize + spanIDSize) (SpanID sc)"
    by (simp add: NewChildSpanContext_def Let_def case_prod_beta sl)
  then have "id_sc (fst (NewChildSpanContext sc g)) = TraceID sc @ ?sp @ SpanID sc"
    using c3 by (rule trans)
  then show ?thesis unfolding sp by simp
qed

lemma NewChildSpanContext_parent:
  "fst (snd (NewChildSpanContext sc g)) = sc\<lparr>childSequenceID := childSequenceID sc + 1\<rparr>"
  by (simp add: NewChildSpanContext_def Let_def case_prod_beta)

lemma NewChildSpanContext_counter:
  "childSequenceID (fst (NewChildSpanContext sc g)) = 0"
  by (simp add: NewChildSpanContext_def Let_def case_prod_beta)

lemma NewChildSpanContext_wf:
  assumes "wf_spanContext sc"
  shows "wf_spanContext (fst (NewChildSpanContext sc g))"
  using wf_lengths [OF assms]
  by (simp add: wf_spanContext_def NewChildSpanContext_id [OF assms] seq_bytes_def
      length_getRandomBytes size_defs)

lemma child_parts:
  assumes "wf_spanContext sc"
  shows "TraceID (fst (NewChildSpanContext sc g)) = TraceID sc"
    and "SpanID (fst (NewChildSpanContext sc g)) =
           (level sc + 1) # seq_bytes (childSequenceID sc)
           @ fst (getRandomBytes (replicate 5 0) g)"
    and "ParentID (fst (NewChildSpanContext sc g)) = SpanID sc"
  using wf_lengths [OF assms]
  by (simp_all add: TraceID_def [of "fst (NewChildSpanContext sc g)"]
      SpanID_def [of "fst (NewChildSpanContext sc g)"]
      ParentID_def [of "fst (NewChildSpanContext sc g)"]
      NewChildSpanContext_id [OF assms] seq_bytes_def length_getRandomBytes size_defs)

lemma spawn_length: "length (fst (spawn n sc g)) = n"
  by (induction n arbitrary: sc g) (simp_all add: case_prod_beta Let_def)

lemma spawn_parent:
  "fst (snd (spawn n sc g)) = sc\<lparr>childSequenceID := childSequenceID sc + of_nat n\<rparr>"
proof (induction n arbitrary: sc g)
  case 0
  show ?case by simp
next
  case (Suc n)
  show ?case
    by (simp add: case_prod_beta Let_def Suc NewChildSpanContext_parent ac_simps)
qed

lemma spawn_nth:
  "k < n \<Longrightarrow>
     \<exists>g'. fst (spawn n sc g) ! k =
       fst (NewChildSpanContext (sc\<lparr>childSequenceID := childSequenceID sc + of_nat k\<rparr>) g')"
proof (induction n arbitrary: sc g k)
  case 0
  then show ?case by simp
next
  case (Suc n)
  show ?case
  proof (cases k)
    case 0
    then show ?thesis
      by (auto simp: case_prod_beta Let_def intro!: exI [of _ g])
  next
    case (Suc j)
    with Suc.prems have "j < n" by simp
    from Suc.IH [OF this, of "fst (snd (NewChildSpanContext sc g))"
        "snd (snd (NewChildSpanContext sc g))"]
    show ?thesis
      using Suc by (simp add: case_prod_beta Let_def NewChildSpanContext_parent ac_simps)
  qed
qed

lemma unat_seq_bytes:
  "unat (ucast (drop_bit 8 s) :: byte) * 256 + unat (ucast s :: byte) = unat (s :: 16 word)"
proof -
  have lt: "unat s < 65536" using unsigned_less [of s, where 'a = nat] by simp
  have lo: "unat (ucast s :: byte) = unat s mod 256"
    by (simp add: unsigned_ucast_eq take_bit_eq_mod)
  have d: "unat (drop_bit 8 s) = unat s div 256"
    unfolding unat_drop_bit_eq by (simp add: drop_bit_eq_div)
  have hi: "unat (ucast (drop_bit 8 s) :: byte) = unat s div 256"
    unfolding unsigned_ucast_eq d using lt by (simp add: take_bit_eq_mod)
  show ?thesis unfolding lo hi by simp
qed

lemma sequence_of_child:
  assumes "wf_spanContext sc"
  shows "sequence_of (fst (NewChildSpanContext sc g)) = unat (childSequenceID sc)"
  by (simp add: sequence_of_def child_parts(2) [OF assms] seq_bytes_def unat_seq_bytes)

lemma go_copy_nth:
  assumes "off \<le> length dst" "i < length dst"
  shows "go_copy dst off src ! i =
           (if off \<le> i \<and> i < off + length src then src ! (i - off) else dst ! i)"
  using assms by (auto simp: go_copy_def nth_append)

lemma newSpanContextID_props:
  assumes len: "length scID = 32"
  shows "length (fst (newSpanContextID scg scID flag now g)) = 32"
    and "fst (newSpanContextID scg scID flag now g) ! 15 = flag"
    and "\<exists>g' a b. take 8 (drop 16 (fst (newSpanContextID scg scID flag now g))) =
            0 # [a, b] @ fst (getRandomBytes (replicate 5 0) g')
          \<and> (length (instanceIDHash scg) = 4 \<longrightarrow> a = scID ! 17 \<and> b = scID ! 18)"
proof -
  define scID1 where "scID1 = go_copy scID 0 (instanceIDHash scg)"
  define ts where "ts = sint now sdiv 1000"
  define scID2 where "scID2 = scID1[4 := of_int (drop_bit 40 ts),
                        5 := of_int (drop_bit 32 ts),
                        6 := of_int (drop_bit 24 ts),
                        7 := of_int (drop_bit 16 ts),
                        8 := of_int (drop_bit 8 ts),
                        9 := of_int ts]"
  define r1 where "r1 = getRandomBytes (take (traceIDSize - 1 - 10) (drop 10 scID2)) g"
  define scID3 where "scID3 = go_copy scID2 10 (fst r1)"
  define scID4 where "scID4 = scID3[traceIDSize - 1 := flag]"
  define r2 where "r2 = newSpanID (drop traceIDSize scID4) 0 0 (snd r1)"
  have res: "fst (newSpanContextID scg scID flag now g) = go_copy scID4 traceIDSize (fst r2)"
    by (simp add: newSpanContextID_def Let_def case_prod_beta scID1_def ts_def scID2_def
        r1_def scID3_def scID4_def r2_def)
  have l1: "length scID1 = 32" by (simp add: scID1_def length_go_copy len)
  have l2: "length scID2 = 32" by (simp add: scID2_def l1)
  have lr1: "length (fst r1) = 5" by (simp add: r1_def length_getRandomBytes l2 size_defs)
  have l3: "length scID3 = 32" by (simp add: scID3_def length_go_copy l2)
  have l4: "length scID4 = 32" by (simp add: scID4_def l3)
  have lx: "length (drop traceIDSize scID4) = 16" by (simp add: l4 size_defs)
  have r2f: "fst r2 = 0 # [drop traceIDSize scID4 ! 1, drop traceIDSize scID4 ! 2]
               @ fst (getRandomBytes (replicate 5 0) (snd r1)) @ drop 8 (drop traceIDSize scID4)"
    unfolding r2_def by (subst newSpanID_fst) (simp_all add: l4 size_defs)
  have lr2: "length (fst r2) = 16"
    unfolding r2f by (simp add: length_getRandomBytes l4 size_defs)
  have fin: "go_copy scID4 traceIDSize (fst r2) = take 16 scID4 @ fst r2"
    using l4 lr2 by (simp add: go_copy_def size_defs)
  show "length (fst (newSpanContextID scg scID flag now g)) = 32"
    unfolding res fin using l4 lr2 by simp
  show "fst (newSpanContextID scg scID flag now g) ! 15 = flag"
    unfolding res fin using l4 l3 by (simp add: nth_append scID4_def size_defs)
  have sp: "take 8 (drop 16 (fst (newSpanContextID scg scID flag now g))) =
          0 # [scID4 ! 17, scID4 ! 18] @ fst (getRandomBytes (replicate 5 0) (snd r1))"
    unfolding res fin using l4 by (simp add: r2f length_getRandomBytes size_defs)
  have "scID4 ! 17 = scID ! 17 \<and> scID4 ! 18 = scID ! 18" if h: "length (instanceIDHash scg) = 4"
  proof -
    have a: "scID1 ! 17 = scID ! 17" "scID1 ! 18 = scID ! 18"
      using len h by (simp_all add: scID1_def go_copy_nth)
    have b: "scID2 ! 17 = scID1 ! 17" "scID2 ! 18 = scID1 ! 18"
      by (simp_all add: scID2_def)
    have c: "scID3 ! 17 = scID2 ! 17" "scID3 ! 18 = scID2 ! 18"
      using l2 lr1 by (simp_all add: scID3_def go_copy_nth)
    have d: "scID4 ! 17 = scID3 ! 17" "scID4 ! 18 = scID3 ! 18"
      by (simp_all add: scID4_def size_defs)
    show ?thesis by (simp add: a b c d)
  qed
  with sp show "\<exists>g' a b. take 8 (drop 16 (fst (newSpanContextID scg scID flag now g))) =
            0 # [a, b] @ fst (getRandomBytes (replicate 5 0) g')
          \<and> (length (instanceIDHash scg) = 4 \<longrightarrow> a = scID ! 17 \<and> b = scID ! 18)"
    by blast
qed

section \<open>Root and child contexts: the claims\<close>

lemma NewSpanContext_fst:
  "fst (NewSpanContext scg opts now g) =
     \<lparr>childSequenceID = 0,
      id_sc = fst (newSpanContextID scg (replicate totalIDSize 0)
                (fst (setSingleFlags (collect_options opts)
                       (setTypeMarker (collect_options opts) 0) scg g))
                now (snd (setSingleFlags (collect_options opts)
                       (setTypeMarker (collect_options opts) 0) scg g)))\<rparr>"
  by (simp add: NewSpanContext_def Let_def case_prod_beta)

lemma NewSpanContext_wf: "wf_spanContext (fst (NewSpanContext scg opts now g))"
  by (simp add: NewSpanContext_fst wf_spanContext_def newSpanContextID_props(1) size_defs)

lemma NewSpanContext_counter: "childSequenceID (fst (NewSpanContext scg opts now g)) = 0"
  by (simp add: NewSpanContext_fst)

lemma NewSpanContext_flag:
  "getSpecialFlag (fst (NewSpanContext scg opts now g)) =
     fst (setSingleFlags (collect_options opts) (setTypeMarker (collect_options opts) 0) scg g)"
  by (simp add: getSpecialFlag_id NewSpanContext_fst newSpanContextID_props(2) size_defs)

lemma NewSpanContext_SpanID:
  "\<exists>g' a b. SpanID (fst (NewSpanContext scg opts now g)) =
       0 # [a, b] @ fst (getRandomBytes (replicate 5 0) g')
     \<and> (wf_generator scg \<longrightarrow> a = 0 \<and> b = 0)"
proof -
  let ?f = "fst (setSingleFlags (collect_options opts) (setTypeMarker (collect_options opts) 0) scg g)"
  let ?g = "snd (setSingleFlags (collect_options opts) (setTypeMarker (collect_options opts) 0) scg g)"
  have "length (replicate 32 (0::byte)) = 32" by simp
  from newSpanContextID_props(3) [OF this, of scg ?f now ?g]
  show ?thesis
    by (simp add: SpanID_def NewSpanContext_fst size_defs wf_generator_def)
qed

lemma setSingleFlags_marker:
  "drop_bit 5 (fst (setSingleFlags sco f scg g)) = drop_bit 5 f"
  by (simp add: setSingleFlags_def Let_def case_prod_beta traceFlagSampled_def
      traceFlagCritical_def drop_bit_or split: option.splits)

lemma setSingleFlags_bit0:
  "bit (fst (setSingleFlags sco f scg g)) 0 = bit f 0"
  by (simp add: setSingleFlags_def Let_def case_prod_beta traceFlagSampled_def
      traceFlagCritical_def bit_simps split: option.splits)

lemma setTypeMarker_debug:
  "IsDebug sco \<Longrightarrow> setTypeMarker sco 0 = 1"
  by (simp add: setTypeMarker_def traceFlagOldDebug_def)

lemma level_SpanID:
  assumes "wf_spanContext sc"
  shows "level sc = SpanID sc ! 0"
  using assms by (simp add: level_def SpanID_def wf_spanContext_def size_defs)

text \<open>
  Claim C4. For every context \<open>parent\<close> and the child that \<^verbatim>\<open>NewChildSpanContext\<close> derives from
  it: the child's TraceID is the parent's, byte for byte (so the flag byte is unchanged),
  the child's ParentID is the parent's SpanID, and the level byte (byte 0 of the SpanID) of
  the child is the parent's level byte plus 1, in the 8-bit arithmetic of the source's
  \<^verbatim>\<open>uint8\<close> (a parent at level 255 gives a child at level 0).
\<close>

theorem NewChildSpanContext_hierarchy:
  assumes "wf_spanContext parent"
  shows "TraceID (fst (NewChildSpanContext parent g)) = TraceID parent
    \<and> getSpecialFlag (fst (NewChildSpanContext parent g)) = getSpecialFlag parent
    \<and> ParentID (fst (NewChildSpanContext parent g)) = SpanID parent
    \<and> SpanID (fst (NewChildSpanContext parent g)) ! 0 = SpanID parent ! 0 + 1
    \<and> level (fst (NewChildSpanContext parent g)) = level parent + 1
    \<and> (unat (level parent) < 255 \<longrightarrow>
          unat (level (fst (NewChildSpanContext parent g))) = unat (level parent) + 1)
    \<and> (unat (level parent) = 255 \<longrightarrow> level (fst (NewChildSpanContext parent g)) = 0)"
proof -
  note P = child_parts [OF assms, of g]
  have w: "wf_spanContext (fst (NewChildSpanContext parent g))"
    by (rule NewChildSpanContext_wf [OF assms])
  have s0: "SpanID (fst (NewChildSpanContext parent g)) ! 0 = level parent + 1"
    by (simp add: P(2))
  have lv: "level (fst (NewChildSpanContext parent g)) = level parent + 1"
    using s0 by (simp add: level_SpanID [OF w])
  have small: "unat (level parent + 1) = unat (level parent) + 1"
    if "unat (level parent) < 255"
    using that by (simp add: unat_word_ariths)
  have wrap: "level parent + 1 = 0" if "unat (level parent) = 255"
  proof -
    from that have "level parent = 255" by (simp add: word_unat_eq_iff)
    then show ?thesis by simp
  qed
  show ?thesis
    using P(1,3) s0 lv small wrap
    by (simp add: getSpecialFlag_def level_SpanID [OF assms])
qed

lemma ctx_count_wf: "wf_spanContext ctx_count"
  by (simp add: ctx_count_def wf_spanContext_def size_defs)

theorem NewChildSpanContext_hierarchy_witness:
  "wf_spanContext ctx_count
   \<and> TraceID (fst (NewChildSpanContext ctx_count rng_zero)) = map of_nat [0..<16]
   \<and> ParentID (fst (NewChildSpanContext ctx_count rng_zero)) = map of_nat [16..<24]
   \<and> level ctx_count = 16 \<and> unat (level ctx_count) < 255
   \<and> level (fst (NewChildSpanContext ctx_count rng_zero)) = 17"
proof -
  have t: "TraceID ctx_count = map of_nat [0..<16]"
    by (simp add: TraceID_def ctx_count_def size_defs take_map)
  have s: "SpanID ctx_count = map of_nat [16..<24]"
    by (simp add: SpanID_def ctx_count_def size_defs take_map drop_map)
  have l: "level ctx_count = 16"
    by (simp add: level_def ctx_count_def size_defs)
  show ?thesis
    using NewChildSpanContext_hierarchy [OF ctx_count_wf, of rng_zero] ctx_count_wf
    by (simp add: t s l)
qed

lemma tail_not_zero:
  "l # [a, b] @ fst (getRandomBytes (replicate 5 0) g) \<noteq> replicate 8 0"
proof
  assume eq: "l # [a, b] @ fst (getRandomBytes (replicate 5 0) g) = replicate 8 0"
  have ne: "replicate 5 (0::byte) \<noteq> []" by simp
  from getRandomBytes_nonzero [OF ne, of g]
  obtain x where x: "x \<in> set (fst (getRandomBytes (replicate 5 0) g))" "x \<noteq> 0" by blast
  then have "x \<in> set (l # [a, b] @ fst (getRandomBytes (replicate 5 0) g))" by simp
  then have "x \<in> set (replicate 8 (0::byte))" unfolding eq .
  with x(2) show False by simp
qed

text \<open>
  Claim C9. The SpanID of a context derived by \<^verbatim>\<open>NewChildSpanContext\<close> and of a root built by
  \<^verbatim>\<open>NewSpanContext\<close> is never eight zero bytes. Its bytes 3 to 7 are what \<^verbatim>\<open>getRandomBytes\<close>
  returns for a five-byte slice; whenever the bytes read from the random source are all
  zero \<^verbatim>\<open>getRandomBytes\<close> sets the last one to 1, and its result always has a nonzero byte.
\<close>

theorem SpanID_never_all_zero:
  "(wf_spanContext parent \<longrightarrow>
      SpanID (fst (NewChildSpanContext parent g)) \<noteq> replicate spanIDSize 0
      \<and> drop 3 (SpanID (fst (NewChildSpanContext parent g)))
          = fst (getRandomBytes (replicate 5 0) g))
   \<and> SpanID (fst (NewSpanContext scg opts now g)) \<noteq> replicate spanIDSize 0
   \<and> (\<exists>g'. drop 3 (SpanID (fst (NewSpanContext scg opts now g)))
          = fst (getRandomBytes (replicate 5 0) g'))
   \<and> (bs \<noteq> [] \<and> (\<forall>b \<in> set (fst (rand_Read (length bs) g)). b = 0) \<longrightarrow>
        last (fst (getRandomBytes bs g)) = 1)
   \<and> (bs \<noteq> [] \<longrightarrow> (\<exists>b \<in> set (fst (getRandomBytes bs g)). b \<noteq> 0))"
proof -
  have child: "SpanID (fst (NewChildSpanContext parent g)) \<noteq> replicate spanIDSize 0
      \<and> drop 3 (SpanID (fst (NewChildSpanContext parent g)))
          = fst (getRandomBytes (replicate 5 0) g)" if w: "wf_spanContext parent"
    using tail_not_zero [of "level parent + 1" "ucast (drop_bit 8 (childSequenceID parent))"
        "ucast (childSequenceID parent)" g]
    by (simp add: child_parts(2) [OF w] seq_bytes_def spanIDSize_def)
  obtain g' a b where r: "SpanID (fst (NewSpanContext scg opts now g)) =
       0 # [a, b] @ fst (getRandomBytes (replicate 5 0) g')"
    using NewSpanContext_SpanID [of scg opts now g] by blast
  have root1: "SpanID (fst (NewSpanContext scg opts now g)) \<noteq> replicate spanIDSize 0"
    unfolding r spanIDSize_def by (rule tail_not_zero)
  have root2: "\<exists>g'. drop 3 (SpanID (fst (NewSpanContext scg opts now g)))
          = fst (getRandomBytes (replicate 5 0) g')"
    unfolding r by (intro exI [of _ g']) simp
  have forced: "last (fst (getRandomBytes bs g)) = 1"
    if "bs \<noteq> []" "\<forall>b \<in> set (fst (rand_Read (length bs) g)). b = 0"
    using that by (rule getRandomBytes_all_zero_forced)
  have nz: "\<exists>b \<in> set (fst (getRandomBytes bs g)). b \<noteq> 0" if "bs \<noteq> []"
    using that by (rule getRandomBytes_nonzero)
  from child root1 root2 forced nz show ?thesis by blast
qed

lemma rand_Read_zero: "fst (rand_Read n rng_zero) = replicate n 0"
  by (simp add: rand_Read_def rng_zero_def map_replicate_const)

theorem SpanID_never_all_zero_witness:
  "wf_spanContext ctx_count
   \<and> fst (rand_Read (length [0::byte, 0, 0, 0, 0]) rng_zero) = [0, 0, 0, 0, 0]
   \<and> last (fst (getRandomBytes [0, 0, 0, 0, 0] rng_zero)) = 1
   \<and> drop 3 (SpanID (fst (NewChildSpanContext ctx_count rng_zero))) = [0, 0, 0, 0, 1]
   \<and> SpanID (fst (NewChildSpanContext ctx_count rng_zero)) \<noteq> replicate spanIDSize 0"
proof -
  have eq: "replicate 5 (0::byte) = [0, 0, 0, 0, 0]" by (simp add: numeral_eq_Suc)
  have z: "\<forall>b \<in> set (fst (rand_Read (length [0::byte, 0, 0, 0, 0]) rng_zero)). b = 0"
    by (simp add: rand_Read_zero)
  have r: "fst (getRandomBytes [0, 0, 0, 0, 0] rng_zero) = [0, 0, 0, 0, 1]"
    by (simp add: getRandomBytes_fst rand_Read_zero getRandomBytes_loop_0 numeral_eq_Suc)
  show ?thesis
    using SpanID_never_all_zero [of ctx_count rng_zero "gen_fixed (Fin 1)" "[]" 0
        "[0, 0, 0, 0, 0]"] ctx_count_wf z
    by (simp add: eq r rand_Read_zero)
qed

lemma opts_debug_stress_collect:
  "IsDebug (collect_options opts_debug_stress)"
  "IsFromStressTest (collect_options opts_debug_stress)"
  by (simp_all add: opts_debug_stress_def collect_options_def IsDebug_option_def
      IsFromStressTest_option_def)

lemma root_debug_flag:
  assumes "IsDebug (collect_options opts)"
  shows "drop_bit 5 (getSpecialFlag (fst (NewSpanContext scg opts now g))) = 0"
    and "bit (getSpecialFlag (fst (NewSpanContext scg opts now g))) 0"
  by (simp_all add: NewSpanContext_flag setSingleFlags_marker setSingleFlags_bit0
      setTypeMarker_debug [OF assms])

text \<open>
  Claim C1, as amended. For every root context built by \<^verbatim>\<open>NewSpanContext\<close> with the options
  \<^verbatim>\<open>IsDebug\<close> and \<^verbatim>\<open>IsFromStressTest\<close> both true, \<^verbatim>\<open>IsDebug\<close> is evaluated first and wins: the
  legacy debug bit (bit 0) of the flag byte is set and the type-marker bits stay 0. So
  \<open>GetTypeMarker\<close> returns 0 (old format), not the debug value 2; \<open>IsSpanContextDebug\<close> is
  true through the legacy fallback; and neither the stress-test nor the shadow marker is
  set, so no marker value 2 to 4 is set at all.
\<close>

theorem NewSpanContext_debug_wins:
  assumes "IsDebug (collect_options opts)" and "IsFromStressTest (collect_options opts)"
  shows "GetTypeMarker (Some (fst (NewSpanContext scg opts now g))) = 0
    \<and> bit (getSpecialFlag (fst (NewSpanContext scg opts now g))) 0
    \<and> IsSpanContextDebug (Some (fst (NewSpanContext scg opts now g)))
    \<and> \<not> IsSpanContextFromStressTest (Some (fst (NewSpanContext scg opts now g)))
    \<and> \<not> IsSpanContextShadow (Some (fst (NewSpanContext scg opts now g)))"
  using root_debug_flag [OF assms(1), of scg now g]
  by (simp add: GetTypeMarker_Some IsSpanContextDebug_Some IsSpanContextFromStressTest_def
      IsSpanContextShadow_def marker_is_stress marker_is_shadow)

theorem NewSpanContext_debug_wins_witness:
  "IsDebug (collect_options opts_debug_stress)
   \<and> IsFromStressTest (collect_options opts_debug_stress)
   \<and> GetTypeMarker (Some (fst (NewSpanContext (gen_fixed (Fin 1)) opts_debug_stress
          1700000000000000000 rng_zero))) = 0
   \<and> IsSpanContextDebug (Some (fst (NewSpanContext (gen_fixed (Fin 1)) opts_debug_stress
          1700000000000000000 rng_zero)))"
  using NewSpanContext_debug_wins [OF opts_debug_stress_collect,
      of "gen_fixed (Fin 1)" 1700000000000000000 rng_zero]
    opts_debug_stress_collect
  by simp

theorem NewSpanContext_debug_marker_counterexample:
  "IsDebug (collect_options opts_debug_stress)
   \<and> IsFromStressTest (collect_options opts_debug_stress)
   \<and> GetTypeMarker (Some (fst (NewSpanContext (gen_fixed (Fin 1)) opts_debug_stress
          1700000000000000000 rng_zero))) \<noteq> 2"
proof -
  have "drop_bit 5 (getSpecialFlag (fst (NewSpanContext (gen_fixed (Fin 1)) opts_debug_stress
          1700000000000000000 rng_zero))) = 0"
    by (rule root_debug_flag(1) [OF opts_debug_stress_collect(1)])
  then show ?thesis
    by (simp add: GetTypeMarker_Some opts_debug_stress_collect)
qed

lemma wf_counter_update:
  "wf_spanContext (sc\<lparr>childSequenceID := c\<rparr>) = wf_spanContext sc"
  by (simp add: wf_spanContext_def)

lemma spawn_sequence:
  assumes "wf_spanContext sc" "k < n"
  shows "sequence_of (fst (spawn n sc g) ! k) = unat (childSequenceID sc + of_nat k)"
proof -
  from spawn_nth [OF assms(2), of sc g] obtain g' where
    "fst (spawn n sc g) ! k =
       fst (NewChildSpanContext (sc\<lparr>childSequenceID := childSequenceID sc + of_nat k\<rparr>) g')"
    by blast
  then show ?thesis
    using assms(1) by (simp add: sequence_of_child wf_counter_update)
qed

lemma spawn_child_counter:
  assumes "k < n"
  shows "childSequenceID (fst (spawn n sc g) ! k) = 0"
proof -
  from spawn_nth [OF assms, of sc g] obtain g' where
    "fst (spawn n sc g) ! k =
       fst (NewChildSpanContext (sc\<lparr>childSequenceID := childSequenceID sc + of_nat k\<rparr>) g')"
    by blast
  then show ?thesis by (simp add: NewChildSpanContext_counter)
qed

lemma spawn_sequences:
  assumes "wf_spanContext sc"
  shows "map sequence_of (fst (spawn n sc g)) =
           map (\<lambda>k. unat (childSequenceID sc + of_nat k)) [0..<n]"
  by (rule nth_equalityI) (simp_all add: spawn_length spawn_sequence [OF assms])

lemma counter_inj:
  fixes c :: "16 word"
  assumes "n \<le> 65536"
  shows "inj_on (\<lambda>k. unat (c + of_nat k)) {0..<n}"
proof (rule inj_onI)
  fix j k assume j: "j \<in> {0..<n}" and k: "k \<in> {0..<n}"
    and eq: "unat (c + of_nat j) = unat (c + of_nat k)"
  from eq have "c + of_nat j = c + of_nat k" by (simp add: word_unat_eq_iff)
  then have "(of_nat j :: 16 word) = of_nat k" by simp
  then have "take_bit 16 j = take_bit 16 k" by (simp add: word_of_nat_eq_iff)
  moreover have "j < 2 ^ 16" "k < 2 ^ 16" using j k assms by simp_all
  ultimately show "j = k" by (simp add: take_bit_nat_eq_self)
qed

lemma counter_no_wrap:
  fixes c :: "16 word"
  assumes "unat c + k < 65536"
  shows "unat (c + of_nat k) = unat c + k"
proof -
  have k: "unat (of_nat k :: 16 word) = k" using assms by (simp add: unat_of_nat)
  have "unat c + unat (of_nat k :: 16 word) < 2 ^ LENGTH(16)" using assms k by simp
  then have "unat (c + of_nat k) = unat c + unat (of_nat k :: 16 word)"
    by (simp only: unat_add_lem)
  then show ?thesis by (simp add: k)
qed

lemma counter_mod:
  fixes c :: "16 word"
  shows "unat (c + of_nat k) = (unat c + k) mod 65536"
  by (simp add: unat_word_ariths unat_of_nat mod_simps)

lemma root_sequence:
  assumes "wf_generator scg"
  shows "sequence_of (fst (NewSpanContext scg opts now g)) = 0"
proof -
  from NewSpanContext_SpanID [of scg opts now g] assms
  obtain g' where "SpanID (fst (NewSpanContext scg opts now g)) =
       0 # [0, 0] @ fst (getRandomBytes (replicate 5 0) g')"
    by blast
  then show ?thesis by (simp add: sequence_of_def)
qed

text \<open>
  Claim C5, as amended. \<open>n\<close> successive calls of \<^verbatim>\<open>NewChildSpanContext\<close> on one context give
  \<open>n\<close> children. The \<open>k\<close>-th child carries, in bytes 1 and 2 of its SpanID (big-endian), the
  value the parent's counter held after the \<open>k\<close> earlier calls, which is the parent's initial
  counter plus \<open>k\<close> modulo 65536; each child's own counter starts at 0. The sequence numbers
  are pairwise distinct as long as \<open>n \<le> 65536\<close>, and strictly increasing in call order as
  long as the 16-bit counter does not wrap (initial counter plus \<open>n\<close> at most 65536). A root
  context has sequence number 0 and counter 0.
\<close>

theorem child_sequence_numbers:
  assumes "wf_spanContext sc"
  shows "length (fst (spawn n sc g)) = n
    \<and> (\<forall>k<n. sequence_of (fst (spawn n sc g) ! k)
                = unat (childSequenceID (fst (snd (spawn k sc g))))
            \<and> sequence_of (fst (spawn n sc g) ! k)
                = (unat (childSequenceID sc) + k) mod 65536
            \<and> childSequenceID (fst (spawn n sc g) ! k) = 0)
    \<and> (n \<le> 65536 \<longrightarrow> distinct (map sequence_of (fst (spawn n sc g))))
    \<and> (unat (childSequenceID sc) + n \<le> 65536 \<longrightarrow>
          sorted_wrt (<) (map sequence_of (fst (spawn n sc g))))
    \<and> (wf_generator scg \<longrightarrow> sequence_of (fst (NewSpanContext scg opts now g')) = 0)
    \<and> childSequenceID (fst (NewSpanContext scg opts now g')) = 0"
proof -
  have nth: "sequence_of (fst (spawn n sc g) ! k)
                = unat (childSequenceID (fst (snd (spawn k sc g))))
            \<and> sequence_of (fst (spawn n sc g) ! k)
                = (unat (childSequenceID sc) + k) mod 65536
            \<and> childSequenceID (fst (spawn n sc g) ! k) = 0" if "k < n" for k
    using that
    by (simp add: spawn_sequence [OF assms] spawn_parent spawn_child_counter counter_mod)
  have dist: "distinct (map sequence_of (fst (spawn n sc g)))" if "n \<le> 65536"
    unfolding spawn_sequences [OF assms]
    using counter_inj [OF that, of "childSequenceID sc"] by (simp add: distinct_map)
  have incr: "sorted_wrt (<) (map sequence_of (fst (spawn n sc g)))"
    if b: "unat (childSequenceID sc) + n \<le> 65536"
  proof -
    have M: "map (\<lambda>k. unat (childSequenceID sc + of_nat k)) [0..<n]
            = map (\<lambda>k. unat (childSequenceID sc) + k) [0..<n]"
    proof (rule map_cong [OF refl])
      fix k assume "k \<in> set [0..<n]"
      then have "unat (childSequenceID sc) + k < 65536" using b by simp
      then show "unat (childSequenceID sc + of_nat k) = unat (childSequenceID sc) + k"
        by (rule counter_no_wrap)
    qed
    show ?thesis
      unfolding spawn_sequences [OF assms] M
      by (simp add: sorted_wrt_map)
  qed
  have A: "length (fst (spawn n sc g)) = n" by (rule spawn_length)
  have E: "wf_generator scg \<longrightarrow> sequence_of (fst (NewSpanContext scg opts now g')) = 0"
    by (simp add: root_sequence)
  have F: "childSequenceID (fst (NewSpanContext scg opts now g')) = 0"
    by (rule NewSpanContext_counter)
  from A nth dist incr E F show ?thesis by blast
qed

lemma gen_fixed_wf: "wf_generator (gen_fixed r)"
  by (simp add: wf_generator_def gen_fixed_def)

lemma ctx_count_counter: "childSequenceID ctx_count = 0"
  by (simp add: ctx_count_def)

theorem child_sequence_numbers_witness:
  "wf_spanContext ctx_count \<and> (3::nat) \<le> 65536
   \<and> unat (childSequenceID ctx_count) + 3 \<le> 65536
   \<and> wf_generator (gen_fixed (Fin 1))
   \<and> sequence_of (fst (spawn 3 ctx_count rng_zero) ! 0) = 0
   \<and> sequence_of (fst (spawn 3 ctx_count rng_zero) ! 1) = 1
   \<and> sequence_of (fst (spawn 3 ctx_count rng_zero) ! 2) = 2
   \<and> distinct (map sequence_of (fst (spawn 3 ctx_count rng_zero)))
   \<and> sorted_wrt (<) (map sequence_of (fst (spawn 3 ctx_count rng_zero)))
   \<and> sequence_of (fst (NewSpanContext (gen_fixed (Fin 1)) [] 0 rng_zero)) = 0"
proof -
  note T = child_sequence_numbers [OF ctx_count_wf, of 3 rng_zero "gen_fixed (Fin 1)" "[]" 0
      rng_zero]
  from T have n: "\<forall>k<3. sequence_of (fst (spawn 3 ctx_count rng_zero) ! k)
                = (unat (childSequenceID ctx_count) + k) mod 65536"
    by blast
  have n0: "sequence_of (fst (spawn 3 ctx_count rng_zero) ! 0) = 0"
    and n1: "sequence_of (fst (spawn 3 ctx_count rng_zero) ! 1) = 1"
    and n2: "sequence_of (fst (spawn 3 ctx_count rng_zero) ! 2) = 2"
    using n by (simp_all add: ctx_count_counter)
  from T have d: "distinct (map sequence_of (fst (spawn 3 ctx_count rng_zero)))"
    by simp
  from T have i: "sorted_wrt (<) (map sequence_of (fst (spawn 3 ctx_count rng_zero)))"
    by (simp add: ctx_count_counter)
  from T gen_fixed_wf
  have r: "sequence_of (fst (NewSpanContext (gen_fixed (Fin 1)) [] 0 rng_zero)) = 0"
    by blast
  show ?thesis
    using ctx_count_wf gen_fixed_wf n0 n1 n2 d i r by (simp add: ctx_count_counter)
qed

theorem child_sequence_wraps_counterexample:
  "\<not> distinct (map sequence_of (fst (spawn 65537 ctx_count rng_zero)))"
proof
  assume d: "distinct (map sequence_of (fst (spawn 65537 ctx_count rng_zero)))"
  have a: "sequence_of (fst (spawn 65537 ctx_count rng_zero) ! 0) = 0"
    by (simp add: spawn_sequence [OF ctx_count_wf] ctx_count_counter)
  have b: "sequence_of (fst (spawn 65537 ctx_count rng_zero) ! 65536) = 0"
    by (simp add: spawn_sequence [OF ctx_count_wf] ctx_count_counter)
  have "map sequence_of (fst (spawn 65537 ctx_count rng_zero)) ! 0
          \<noteq> map sequence_of (fst (spawn 65537 ctx_count rng_zero)) ! 65536"
    using d by (simp add: distinct_conv_nth spawn_length)
  then show False by (simp add: spawn_length a b)
qed

section \<open>Serialization, parsing and sampling: the claims\<close>

lemma hextable_nibbles:
  "\<forall>n<16. fromHexChar (hextable ! n) = Some (of_nat n) \<and> hextable ! n \<noteq> CHR '':''"
  by (simp add: All_less_Suc numeral_eq_Suc hextable_def fromHexChar_def Let_def)

lemma fifteen: "(0x0f :: byte) = mask 4" by (simp add: mask_eq_exp_minus_1)

lemma high_nibble_bound: "unat (drop_bit 4 (v :: byte)) < 16"
proof -
  have "unat v < 256" using unsigned_less [of v, where 'a = nat] by simp
  moreover have "unat (drop_bit 4 v) = unat v div 16"
    unfolding unat_drop_bit_eq by (simp add: drop_bit_eq_div)
  ultimately show ?thesis by simp
qed

lemma low_nibble_bound: "unat ((v :: byte) AND 0x0f) < 16"
proof -
  have "v AND 0x0f = take_bit 4 v"
    unfolding fifteen by (simp add: take_bit_eq_mask)
  then have "unat (v AND 0x0f) = take_bit 4 (unat v)"
    by (simp add: unsigned_take_bit_eq)
  also have "\<dots> < 2 ^ 4" by (rule take_bit_nat_less_exp)
  finally show ?thesis by simp
qed

lemma nibbles_join: "push_bit 4 (drop_bit 4 v) OR (v AND 0x0f) = (v :: byte)"
  unfolding fifteen
  by (rule bit_word_eqI) (auto simp: bit_simps)

lemma fromHexChar_high:
  "fromHexChar (hextable ! unat (drop_bit 4 (v :: byte))) = Some (drop_bit 4 v)"
  using hextable_nibbles high_nibble_bound [of v] by simp

lemma fromHexChar_low:
  "fromHexChar (hextable ! unat ((v :: byte) AND 0x0f)) = Some (v AND 0x0f)"
  using hextable_nibbles low_nibble_bound [of v] by simp

lemma hex_digits_no_colon: "CHR '':'' \<notin> set (hex_digits v)"
  using hextable_nibbles high_nibble_bound [of v] low_nibble_bound [of v]
  by (auto simp: hex_digits_def)

lemma hex_string_no_colon: "CHR '':'' \<notin> set (hex_string bs)"
  by (simp add: hex_string_def hex_digits_no_colon)

lemma length_hex_string: "length (hex_string bs) = 2 * length bs"
  by (induction bs) (simp_all add: hex_string_def hex_digits_def)

lemma hex_string_Cons: "hex_string (v # bs) = hex_digits v @ hex_string bs"
  by (simp add: hex_string_def)

lemma length_hex_Encode: "length (hex_Encode dst j src) = length dst"
  by (induction dst j src rule: hex_Encode.induct) simp_all

lemma hex_Encode_eq:
  "j + 2 * length src \<le> length dst \<Longrightarrow>
     hex_Encode dst j src = take j dst @ hex_string src @ drop (j + 2 * length src) dst"
proof (induction dst j src rule: hex_Encode.induct)
  case (1 dst j)
  then show ?case by (simp add: hex_string_def)
next
  case (2 dst j v src)
  let ?d = "dst[j := hextable ! unat (drop_bit 4 v), j + 1 := hextable ! unat (v AND 0x0f)]"
  have l: "length ?d = length dst" by simp
  from 2 have IH: "hex_Encode ?d (j + 2) src =
      take (j + 2) ?d @ hex_string src @ drop (j + 2 + 2 * length src) ?d"
    by simp
  have t: "take (j + 2) ?d = take j dst @ hex_digits v"
    using "2.prems"
    by (intro nth_equalityI) (auto simp: hex_digits_def nth_append nth_list_update less_Suc_eq)
  have d: "drop (j + 2 + 2 * length src) ?d = drop (j + 2 + 2 * length src) dst"
    by simp
  show ?case
    by (simp only: hex_Encode.simps IH t d hex_string_Cons) simp
qed

lemma hex_Decode_eq:
  "i + length bs \<le> length dst \<Longrightarrow>
     hex_Decode dst i (hex_string bs) = Inr (take i dst @ bs @ drop (i + length bs) dst)"
proof (induction bs arbitrary: dst i)
  case Nil
  then show ?case by (simp add: hex_string_def)
next
  case (Cons v bs)
  let ?d = "dst[i := v]"
  from Cons.prems have i: "i < length dst" by simp
  from Cons.prems have "i + 1 + length bs \<le> length ?d" by simp
  from Cons.IH [OF this]
  have IH: "hex_Decode ?d (i + 1) (hex_string bs) =
      Inr (take (i + 1) ?d @ bs @ drop (i + 1 + length bs) ?d)" .
  have t: "take (i + 1) ?d = take i dst @ [v]"
    using i by (simp add: take_Suc_conv_app_nth)
  have d: "drop (i + 1 + length bs) ?d = drop (i + 1 + length bs) dst" by simp
  show ?case
    using i
    by (simp add: hex_string_Cons hex_digits_def fromHexChar_high fromHexChar_low
        nibbles_join IH [simplified] t [simplified] d [simplified])
qed

lemma strings_Index_first:
  "c \<notin> set a \<Longrightarrow> strings_Index (a @ c # rest) c = int (length a)"
  by (simp add: strings_Index_def takeWhile_append2 [of a] takeWhile_append)

lemma strings_LastIndex_last:
  assumes "c \<notin> set p"
  shows "strings_LastIndex (pre @ c # p) c = int (length pre)"
proof -
  have "takeWhile (\<lambda>x. x \<noteq> c) (rev p @ c # rev pre) = rev p"
    using assms by (simp add: takeWhile_append)
  then show ?thesis by (simp add: strings_LastIndex_def)
qed

lemma String_eq:
  assumes "wf_spanContext sc"
  shows "String sc = hex_string (TraceID sc) @ CHR '':'' # hex_string (SpanID sc)
                       @ CHR '':'' # hex_string (ParentID sc)"
proof -
  note L = wf_lengths [OF assms]
  let ?z = "char_of (0::nat)"
  let ?T = "hex_string (TraceID sc)" and ?S = "hex_string (SpanID sc)"
    and ?P = "hex_string (ParentID sc)"
  have lT: "length ?T = 32" and lS: "length ?S = 16" and lP: "length ?P = 16"
    using L by (simp_all add: length_hex_string)
  let ?r1 = "hex_Encode (replicate (totalIDSize * 2 + 2) ?z) 0 (TraceID sc)"
  have r1: "?r1 = ?T @ replicate 34 ?z"
    using L(1) by (subst hex_Encode_eq) (simp_all add: size_defs)
  let ?r2 = "?r1[hex_EncodedLen traceIDSize := CHR '':'']"
  have r2: "?r2 = ?T @ CHR '':'' # replicate 33 ?z"
    unfolding r1 using lT
    by (subst upd_conv_take_nth_drop) (simp_all add: hex_EncodedLen_def size_defs)
  let ?r3 = "hex_Encode ?r2 (hex_EncodedLen traceIDSize + 1) (SpanID sc)"
  have r3: "?r3 = ?T @ CHR '':'' # ?S @ replicate 17 ?z"
    unfolding r2 using lT L(2)
    by (subst hex_Encode_eq) (simp_all add: hex_EncodedLen_def size_defs)
  let ?r4 = "?r3[hex_EncodedLen (traceIDSize + spanIDSize) + 1 := CHR '':'']"
  have r4: "?r4 = ?T @ CHR '':'' # ?S @ CHR '':'' # replicate 16 ?z"
    unfolding r3 using lT lS
    by (subst upd_conv_take_nth_drop) (simp_all add: hex_EncodedLen_def size_defs)
  let ?r5 = "hex_Encode ?r4 (hex_EncodedLen (traceIDSize + spanIDSize) + 2) (ParentID sc)"
  have r5: "?r5 = ?T @ CHR '':'' # ?S @ CHR '':'' # ?P"
    unfolding r4 using lT lS L(3)
    by (subst hex_Encode_eq) (simp_all add: hex_EncodedLen_def size_defs)
  have "String sc = ?r5" by (simp add: String_def Let_def)
  then show ?thesis using r5 by (rule trans)
qed

lemma NewSpanContextFromBytes_Bytes:
  assumes "wf_spanContext sc"
  shows "NewSpanContextFromBytes (Bytes sc) = Inr \<lparr>childSequenceID = 0, id_sc = id_sc sc\<rparr>"
  using assms
  by (simp add: NewSpanContextFromBytes_def Bytes_def wf_spanContext_def go_copy_def)

lemma NewSpanContextFromString_String:
  assumes "wf_spanContext sc"
  shows "NewSpanContextFromString (String sc) = Inr \<lparr>childSequenceID = 0, id_sc = id_sc sc\<rparr>"
proof -
  note L = wf_lengths [OF assms]
  let ?T = "hex_string (TraceID sc)" and ?S = "hex_string (SpanID sc)"
    and ?P = "hex_string (ParentID sc)"
  let ?s = "?T @ CHR '':'' # ?S @ CHR '':'' # ?P"
  have lT: "length ?T = 32" and lS: "length ?S = 16" and lP: "length ?P = 16"
    using L by (simp_all add: length_hex_string)
  have first: "strings_Index ?s CHR '':'' = 32"
    using strings_Index_first [where a = ?T and c = "CHR '':''"
        and rest = "?S @ CHR '':'' # ?P"] hex_string_no_colon lT by simp
  have last: "strings_LastIndex ?s CHR '':'' = 49"
    using strings_LastIndex_last [where p = ?P and c = "CHR '':''"
        and pre = "?T @ CHR '':'' # ?S"] hex_string_no_colon lT lS by simp
  have seg1: "substr ?s 0 32 = Inr ?T"
    using lT lS lP by (simp add: substr_def)
  have seg2: "substr ?s (32 + 1) 49 = Inr ?S"
    using lT lS lP by (simp add: substr_def)
  have seg3: "substr ?s (49 + 1) (int (length ?s)) = Inr ?P"
    using lT lS lP by (simp add: substr_def)
  have d1: "decode_segment (replicate totalIDSize 0) 0 (Inr ?T)
              = Inr (TraceID sc @ replicate 16 0)"
    using L(1) by (simp add: decode_segment_def hex_Decode_eq size_defs)
  have d2: "decode_segment (TraceID sc @ replicate 16 0) traceIDSize (Inr ?S)
              = Inr (TraceID sc @ SpanID sc @ replicate 8 0)"
    using L(1,2) by (simp add: decode_segment_def hex_Decode_eq size_defs)
  have d3: "decode_segment (TraceID sc @ SpanID sc @ replicate 8 0)
              (traceIDSize + spanIDSize) (Inr ?P)
              = Inr (TraceID sc @ SpanID sc @ ParentID sc)"
    using L(1,2,3) by (simp add: decode_segment_def hex_Decode_eq size_defs)
  have ne: "length ?s \<noteq> 0" by simp
  have "NewSpanContextFromString ?s
          = Inr \<lparr>childSequenceID = 0, id_sc = TraceID sc @ SpanID sc @ ParentID sc\<rparr>"
    unfolding NewSpanContextFromString_def Let_def first last
    using ne by (simp only: if_False seg1 seg2 seg3 d1 d2 d3 sum.case) simp
  then show ?thesis
    unfolding String_eq [OF assms] L(4) [symmetric] .
qed

text \<open>
  Claim C3. For every context \<open>sc\<close> (its identifier is a 32-byte array),
  \<^verbatim>\<open>NewSpanContextFromBytes(sc.Bytes())\<close> succeeds with a context whose identifier is \<open>sc\<close>'s,
  byte for byte, and \<^verbatim>\<open>NewSpanContextFromString(sc.String())\<close> succeeds with a context whose
  identifier is \<open>sc\<close>'s.
\<close>

theorem serialization_round_trip:
  assumes "wf_spanContext sc"
  shows "NewSpanContextFromBytes (Bytes sc) = Inr \<lparr>childSequenceID = 0, id_sc = id_sc sc\<rparr>
    \<and> NewSpanContextFromString (String sc) = Inr \<lparr>childSequenceID = 0, id_sc = id_sc sc\<rparr>"
  using NewSpanContextFromBytes_Bytes [OF assms] NewSpanContextFromString_String [OF assms]
  by (rule conjI)

lemma String_ctx_count:
  "String ctx_count = ''000102030405060708090a0b0c0d0e0f:1011121314151617:18191a1b1c1d1e1f''"
  by code_simp

theorem serialization_round_trip_witness:
  "wf_spanContext ctx_count
   \<and> String ctx_count = ''000102030405060708090a0b0c0d0e0f:1011121314151617:18191a1b1c1d1e1f''
   \<and> NewSpanContextFromString
        ''000102030405060708090a0b0c0d0e0f:1011121314151617:18191a1b1c1d1e1f'' = Inr ctx_count
   \<and> NewSpanContextFromBytes (Bytes ctx_count) = Inr ctx_count"
proof -
  have c: "\<lparr>childSequenceID = 0, id_sc = id_sc ctx_count\<rparr> = ctx_count"
    by (simp add: ctx_count_def)
  show ?thesis
    using serialization_round_trip [OF ctx_count_wf] ctx_count_wf
    unfolding c String_ctx_count by simp
qed

text \<open>
  Claim C2 says that every string that is not 32, 16 and 16 hexadecimal digits separated by
  two colons is rejected with an error and that no string makes the parser panic. The
  parser does not check the length of a segment. A first segment of 66 digits, or a last
  segment of 18 digits, runs \<^verbatim>\<open>hex.Decode\<close> past the end of the 32-byte array, which is an
  index-out-of-range panic; and segments that are too short, even all three empty, are
  accepted and leave the remaining bytes zero.
\<close>

theorem NewSpanContextFromString_unchecked_lengths:
  "NewSpanContextFromString (replicate 66 CHR ''0'' @ ''::'') = Inl PanicIndexOutOfRange
   \<and> NewSpanContextFromString (''::'' @ replicate 18 CHR ''0'') = Inl PanicIndexOutOfRange
   \<and> NewSpanContextFromString ''::'' = Inr \<lparr>childSequenceID = 0, id_sc = replicate 32 0\<rparr>
   \<and> NewSpanContextFromString ''ab:cd:ef''
        = Inr \<lparr>childSequenceID = 0,
               id_sc = [0xab] @ replicate 15 0 @ [0xcd] @ replicate 7 0 @ [0xef] @ replicate 7 0\<rparr>"
proof -
  have a: "NewSpanContextFromString (replicate 66 CHR ''0'' @ ''::'') = Inl PanicIndexOutOfRange"
    by code_simp
  have b: "NewSpanContextFromString (''::'' @ replicate 18 CHR ''0'') = Inl PanicIndexOutOfRange"
    by code_simp
  have c: "NewSpanContextFromString ''::'' = Inr \<lparr>childSequenceID = 0, id_sc = replicate 32 0\<rparr>"
    by code_simp
  have d: "NewSpanContextFromString ''ab:cd:ef''
        = Inr \<lparr>childSequenceID = 0,
               id_sc = [0xab] @ replicate 15 0 @ [0xcd] @ replicate 7 0 @ [0xef] @ replicate 7 0\<rparr>"
    by code_simp
  from a b c d show ?thesis by simp
qed

lemma clamp_cases:
  "rate \<noteq> NaN \<Longrightarrow>
     samplingRate (NewProbabilisticSampler rate) =
       (if f64_le rate (Fin 0) then Fin 0 else if f64_le (Fin 1) rate then Fin 1 else rate)"
  by (cases rate) (auto simp: NewProbabilisticSampler_def math_Min_def math_Max_def f64_le_def)

lemma clamp_in_unit:
  "rate \<noteq> NaN \<Longrightarrow> in_unit_interval (samplingRate (NewProbabilisticSampler rate))"
  by (cases rate)
     (auto simp: NewProbabilisticSampler_def math_Min_def math_Max_def f64_le_def
       in_unit_interval_def)

lemma IsSampled_eq:
  "ProbabilisticSampler_IsSampled s g =
     (f64_less (fst (rand_Float64 g)) (samplingRate s), snd (rand_Float64 g))"
  by (simp add: ProbabilisticSampler_IsSampled_def case_prod_beta)

text \<open>
  The sampler on rates that are numbers. For every rate that is not NaN,
  \<^verbatim>\<open>NewProbabilisticSampler\<close> stores the rate clamped into [0, 1]: 0 for a rate at most 0, 1
  for a rate at least 1, the rate itself otherwise. \<^verbatim>\<open>IsSampled\<close> takes one value from the
  random source and samples iff that value is less than the stored rate. With a drawn
  value in [0, 1), which is what \<^verbatim>\<open>rand.Float64\<close> documents, a sampler built with a rate at
  most 0 does not sample and one built with a rate at least 1 samples.
\<close>

lemma ProbabilisticSampler_boundaries:
  "(rate \<noteq> NaN \<longrightarrow>
      in_unit_interval (samplingRate (NewProbabilisticSampler rate))
      \<and> samplingRate (NewProbabilisticSampler rate) =
          (if f64_le rate (Fin 0) then Fin 0 else if f64_le (Fin 1) rate then Fin 1 else rate))
   \<and> samplingRate (NewProbabilisticSampler NaN) = NaN
   \<and> ProbabilisticSampler_IsSampled s g =
        (f64_less (fst (rand_Float64 g)) (samplingRate s), snd (rand_Float64 g))
   \<and> (fst (rand_Float64 g) = Fin u \<and> 0 \<le> u \<and> u < 1 \<longrightarrow>
        (f64_le rate (Fin 0) \<longrightarrow>
           \<not> fst (ProbabilisticSampler_IsSampled (NewProbabilisticSampler rate) g))
        \<and> (f64_le (Fin 1) rate \<longrightarrow>
           fst (ProbabilisticSampler_IsSampled (NewProbabilisticSampler rate) g)))"
proof -
  have nan: "samplingRate (NewProbabilisticSampler NaN) = NaN"
    by (simp add: NewProbabilisticSampler_def math_Min_def math_Max_def)
  have lo: "\<not> fst (ProbabilisticSampler_IsSampled (NewProbabilisticSampler rate) g)"
    if "fst (rand_Float64 g) = Fin u" "0 \<le> u" "f64_le rate (Fin 0)"
  proof -
    from that(3) have "rate \<noteq> NaN" by (simp add: f64_le_def)
    then show ?thesis using that by (simp add: IsSampled_eq clamp_cases)
  qed
  have hi: "fst (ProbabilisticSampler_IsSampled (NewProbabilisticSampler rate) g)"
    if "fst (rand_Float64 g) = Fin u" "u < 1" "f64_le (Fin 1) rate"
  proof -
    from that(3) have n: "rate \<noteq> NaN" by (simp add: f64_le_def)
    from that(3) have "\<not> f64_le rate (Fin 0)" by (cases rate) (auto simp: f64_le_def)
    then show ?thesis using that n by (simp add: IsSampled_eq clamp_cases)
  qed
  from nan lo hi clamp_cases [of rate] clamp_in_unit [of rate] IsSampled_eq [of s g]
  show ?thesis by blast
qed

lemma ProbabilisticSampler_boundaries_example:
  "samplingRate (NewProbabilisticSampler (Fin 3)) = Fin 1
   \<and> f64_le (Fin 1) (Fin 3)
   \<and> samplingRate (NewProbabilisticSampler (Fin (- 2))) = Fin 0
   \<and> f64_le (Fin (- 2)) (Fin 0)
   \<and> fst (rand_Float64 rng_count) = Fin (1 / 2)
   \<and> fst (ProbabilisticSampler_IsSampled (NewProbabilisticSampler (Fin 3)) rng_count)
   \<and> \<not> fst (ProbabilisticSampler_IsSampled (NewProbabilisticSampler (Fin (- 2))) rng_count)"
proof -
  have d: "fst (rand_Float64 rng_count) = Fin (1 / 2)"
    by (simp add: rand_Float64_def rng_count_def)
  have a: "f64_le (Fin 1) (Fin 3)" and b: "f64_le (Fin (- 2)) (Fin 0)"
    by (simp_all add: f64_le_def)
  show ?thesis
    using ProbabilisticSampler_boundaries [of "Fin 3" "NewProbabilisticSampler (Fin 3)"
        rng_count "1 / 2"]
      ProbabilisticSampler_boundaries [of "Fin (- 2)" "NewProbabilisticSampler (Fin (- 2))"
        rng_count "1 / 2"] a b d
    by (simp add: f64_le_def)
qed

text \<open>
  Claim C8 says that \<^verbatim>\<open>NewProbabilisticSampler\<close> clamps every rate into [0, 1] at
  construction. The constructor does clamp numbers (3 becomes 1, -2 becomes 0), but for a
  NaN rate \<^verbatim>\<open>math.Min\<close> and \<^verbatim>\<open>math.Max\<close> both return NaN: the stored rate is NaN, which is
  not in [0, 1].
\<close>

theorem NewProbabilisticSampler_NaN_not_clamped:
  "samplingRate (NewProbabilisticSampler NaN) = NaN
   \<and> \<not> in_unit_interval (samplingRate (NewProbabilisticSampler NaN))
   \<and> samplingRate (NewProbabilisticSampler (Fin 3)) = Fin 1
   \<and> samplingRate (NewProbabilisticSampler (Fin (- 2))) = Fin 0"
  by (simp add: NewProbabilisticSampler_def math_Min_def math_Max_def in_unit_interval_def
      f64_le_def)

section \<open>Flag decoder: the claims\<close>

text \<open>
  Claim C6. For a flag byte whose type marker (bits 5 to 7, what \<open>GetTypeMarker\<close> returns)
  is 0, \<open>IsSpanContextDebug\<close> is true exactly when the legacy debug bit (bit 0) is set.
  For a flag byte whose type marker is not 0, the legacy bit plays no part:
  \<open>IsSpanContextDebug\<close> is true exactly when the type marker is the debug value 2.
\<close>

theorem IsSpanContextDebug_legacy_fallback:
  "GetTypeMarker (Some sc) = uint (drop_bit 5 (getSpecialFlag sc))
   \<and> (GetTypeMarker (Some sc) = 0 \<longrightarrow>
      IsSpanContextDebug (Some sc) = bit (getSpecialFlag sc) 0)
   \<and> (GetTypeMarker (Some sc) \<noteq> 0 \<longrightarrow>
      IsSpanContextDebug (Some sc) = (GetTypeMarker (Some sc) = 2))"
proof -
  have "(GetTypeMarker (Some sc) = 0 \<longrightarrow>
      IsSpanContextDebug (Some sc) = bit (getSpecialFlag sc) 0)
   \<and> (GetTypeMarker (Some sc) \<noteq> 0 \<longrightarrow>
      IsSpanContextDebug (Some sc) = (GetTypeMarker (Some sc) = 2))"
    by (simp add: GetTypeMarker_eq_0 GetTypeMarker_eq_2 IsSpanContextDebug_Some)
  with GetTypeMarker_Some [of sc] show ?thesis by (rule conjI)
qed

theorem IsSpanContextDebug_legacy_fallback_witness:
  "GetTypeMarker (Some (ctx_flag 0x01)) = 0 \<and> IsSpanContextDebug (Some (ctx_flag 0x01))
   \<and> bit (getSpecialFlag (ctx_flag 0x01)) 0
   \<and> GetTypeMarker (Some (ctx_flag 0x61)) \<noteq> 0 \<and> \<not> IsSpanContextDebug (Some (ctx_flag 0x61))
   \<and> GetTypeMarker (Some (ctx_flag 0x40)) = 2 \<and> IsSpanContextDebug (Some (ctx_flag 0x40))"
  using IsSpanContextDebug_legacy_fallback [of "ctx_flag 0x01"]
    IsSpanContextDebug_legacy_fallback [of "ctx_flag 0x61"]
    IsSpanContextDebug_legacy_fallback [of "ctx_flag 0x40"]
  by (simp add: GetTypeMarker_Some getSpecialFlag_ctx_flag)

text \<open>
  Claim C7. \<open>IsSpanContextSampled\<close> of a context is true if and only if the sampled bit
  (bit 1) of its flag byte is set or \<open>IsSpanContextDebug\<close> is true of it; so every
  context, nil or not, that is debug is reported as sampled whatever its sampled bit; and
  the nil context is not sampled.
\<close>

theorem IsSpanContextSampled_iff:
  "(IsSpanContextSampled (Some sc) =
      (bit (getSpecialFlag sc) 1 \<or> IsSpanContextDebug (Some sc)))
   \<and> (IsSpanContextDebug x \<longrightarrow> IsSpanContextSampled x)
   \<and> \<not> IsSpanContextSampled None"
  by (cases x) (simp_all add: IsSpanContextSampled_def IsSpanContextDebug_def sampled_bit)

theorem IsSpanContextSampled_iff_witness:
  "IsSpanContextDebug (Some (ctx_flag 0x01)) \<and> IsSpanContextSampled (Some (ctx_flag 0x01))
   \<and> \<not> bit (getSpecialFlag (ctx_flag 0x01)) 1"
  using IsSpanContextSampled_iff [of "ctx_flag 0x01" "Some (ctx_flag 0x01)"]
  by (simp add: IsSpanContextDebug_Some getSpecialFlag_ctx_flag)

text \<open>
  Claim C10. On every non-nil context the deprecated methods \<^verbatim>\<open>IsDebug\<close>, \<^verbatim>\<open>IsSampled\<close>,
  \<^verbatim>\<open>IsFromStressTest\<close> and \<^verbatim>\<open>GetTypeMarker\<close> of \<^verbatim>\<open>spanContext\<close> return what the standalone
  functions of the flag decoder return.
\<close>

theorem deprecated_methods_agree:
  "spanContext_IsDebug sc = IsSpanContextDebug (Some sc)
   \<and> spanContext_IsSampled sc = IsSpanContextSampled (Some sc)
   \<and> spanContext_IsFromStressTest sc = IsSpanContextFromStressTest (Some sc)
   \<and> spanContext_GetTypeMarker sc = GetTypeMarker (Some sc)"
proof -
  have dbg: "spanContext_IsDebug sc = IsSpanContextDebug (Some sc)"
    by (auto simp: spanContext_IsDebug_def IsSpanContextDebug_def isOldFormat_def
        getSpecialFlag_id flag_defs)
  have smp: "spanContext_IsSampled sc = IsSpanContextSampled (Some sc)"
    by (simp add: spanContext_IsSampled_def IsSpanContextSampled_def dbg getSpecialFlag_id)
  have str: "spanContext_IsFromStressTest sc = IsSpanContextFromStressTest (Some sc)"
    by (simp add: spanContext_IsFromStressTest_def IsSpanContextFromStressTest_def
        getSpecialFlag_id)
  have mrk: "spanContext_GetTypeMarker sc = GetTypeMarker (Some sc)"
    by (simp add: spanContext_GetTypeMarker_def GetTypeMarker_def getSpecialFlag_id)
  from dbg smp str mrk show ?thesis by simp
qed

end
